(* ===== verification/Prelude.thy ===== *)
theory Prelude
  imports Main "HOL-Library.Sublist"
begin

text \<open>
  The shared base of the development: byte strings and the part of the C++ string interface that
  the sources use (\<open>find\<close>, \<open>substr\<close>, \<open>starts_with\<close>, \<open>ends_with\<close>), the theorem collections that
  carry the component proofs, and the generic replacement function that the masking loops are
  compared with.  A C++ \<open>std::string\<close> is a list of 8-bit characters, the type \<^typ>\<open>string\<close>; a
  \<open>size_t\<close> position is a \<^typ>\<open>nat\<close>, and \<open>npos\<close> is \<^term>\<open>None\<close>.
\<close>

named_theorems str_simps \<open>rewrite rules for the string search functions\<close>
named_theorems str_intros \<open>introduction rules for prefixes and substrings\<close>

type_synonym bytes = string

section \<open>The string interface\<close>

abbreviation starts_with :: "string \<Rightarrow> string \<Rightarrow> bool" where
  "starts_with s pat \<equiv> prefix pat s"

abbreviation ends_with :: "string \<Rightarrow> string \<Rightarrow> bool" where
  "ends_with s pat \<equiv> suffix pat s"

abbreviation contains :: "string \<Rightarrow> string \<Rightarrow> bool" where
  "contains s pat \<equiv> sublist pat s"

definition substr :: "'a list \<Rightarrow> nat \<Rightarrow> nat \<Rightarrow> 'a list" where
  "substr s pos n = take n (drop pos s)"

fun find_str :: "'a list \<Rightarrow> 'a list \<Rightarrow> nat option" where
  "find_str pat [] = (if pat = [] then Some 0 else None)"
| "find_str pat (c # cs) =
     (if prefix pat (c # cs) then Some 0 else map_option Suc (find_str pat cs))"

definition find_from :: "'a list \<Rightarrow> 'a list \<Rightarrow> nat \<Rightarrow> nat option" where
  "find_from s pat pos =
     (if pos \<le> length s then map_option ((+) pos) (find_str pat (drop pos s)) else None)"

definition rfind_str :: "'a list \<Rightarrow> 'a list \<Rightarrow> nat option" where
  "rfind_str pat s = map_option (\<lambda>i. length s - i - length pat) (find_str (rev pat) (rev s))"

definition replace_at :: "'a list \<Rightarrow> nat \<Rightarrow> nat \<Rightarrow> 'a list \<Rightarrow> 'a list" where
  "replace_at s pos n new = take pos s @ new @ drop (pos + n) s"

lemma length_substr [simp]: "length (substr s pos n) = min n (length s - pos)"
  by (simp add: substr_def min.commute)

lemma substr_append_left [str_simps]: "substr (pre @ rest) (length pre) n = take n rest"
  by (simp add: substr_def)

lemma find_str_Some:
  "find_str pat s = Some p \<Longrightarrow> p + length pat \<le> length s \<and> prefix pat (drop p s)"
proof (induction pat s arbitrary: p rule: find_str.induct)
  case (1 pat)
  then show ?case by (auto split: if_splits)
next
  case (2 pat c cs)
  then show ?case by (fastforce split: if_splits dest: prefix_length_le)
qed

lemma find_str_decomp:
  assumes "find_str pat s = Some p"
  shows "s = take p s @ pat @ drop (p + length pat) s"
proof -
  from find_str_Some [OF assms] obtain zs where zs: "drop p s = pat @ zs"
    by (auto simp: prefix_def)
  have "drop (p + length pat) s = drop (length pat) (drop p s)"
    by (simp add: add.commute)
  with zs have "drop (p + length pat) s = zs" by simp
  with zs show ?thesis by (metis append_take_drop_id)
qed

lemma find_str_first:
  "find_str pat s = Some p \<Longrightarrow> q < p \<Longrightarrow> \<not> prefix pat (drop q s)"
proof (induction pat s arbitrary: p q rule: find_str.induct)
  case (1 pat)
  then show ?case by (auto split: if_splits)
next
  case (2 pat c cs)
  then show ?case by (cases q) (auto split: if_splits)
qed

lemma find_str_None: "find_str pat s = None \<longleftrightarrow> \<not> sublist pat s"
  by (induction pat s rule: find_str.induct) (auto simp: sublist_Cons_right)

lemma find_from_append [str_simps]:
  "find_from (pre @ rest) pat (length pre) = map_option ((+) (length pre)) (find_str pat rest)"
  by (simp add: find_from_def)

lemma find_from_Some:
  assumes "find_from s pat pos = Some p"
  shows "pos \<le> p" "p + length pat \<le> length s" "prefix pat (drop p s)"
proof -
  from assms obtain q where q: "pos \<le> length s" "find_str pat (drop pos s) = Some q"
    and p: "p = pos + q"
    by (auto simp: find_from_def split: if_splits)
  from find_str_Some [OF q(2)] q(1) p
  show "pos \<le> p" "p + length pat \<le> length s" "prefix pat (drop p s)"
    by (auto simp: add.commute)
qed

lemma length_replace_at [simp]:
  "pos + n \<le> length s \<Longrightarrow> length (replace_at s pos n new) = length s - n + length new"
  by (simp add: replace_at_def)

lemma replace_at_append [str_simps]:
  "replace_at (pre @ rest) (length pre + p) n new = pre @ replace_at rest p n new"
  by (simp add: replace_at_def add.assoc)

lemma of_char_less [simp]: "(of_char c :: nat) < 256" for c :: char
  using of_char_mod_256 [of c] by (metis mod_less_divisor zero_less_numeral)

lemma of_char_nibble [simp]: "(of_char c :: nat) div 16 < 16" for c :: char
  using of_char_less [of c] by linarith

text \<open>A text is a field without separator, or a field, a separator and a text.\<close>

lemma fields_induct [case_names field sep]:
  assumes "\<And>f. sep \<notin> set f \<Longrightarrow> P f"
    and "\<And>f s. sep \<notin> set f \<Longrightarrow> P s \<Longrightarrow> P (f @ sep # s)"
  shows "P s"
proof (induction s rule: length_induct)
  case (1 s)
  show ?case
  proof (cases "sep \<in> set s")
    case True
    then obtain f r where "s = f @ sep # r" "sep \<notin> set f" by (metis split_list_first)
    with 1 assms(2) show ?thesis by auto
  qed (rule assms(1))
qed

lemma field_takeWhile [str_simps]:
  assumes "sep \<notin> set f"
  shows "takeWhile (\<lambda>c. c \<noteq> sep) f = f" "dropWhile (\<lambda>c. c \<noteq> sep) f = []"
    "takeWhile (\<lambda>c. c \<noteq> sep) (f @ sep # s) = f" "dropWhile (\<lambda>c. c \<noteq> sep) (f @ sep # s) = sep # s"
  using assms by (induction f) auto

lemma find_char:
  "find_str [c] s = (if c \<in> set s then Some (length (takeWhile (\<lambda>x. x \<noteq> c) s)) else None)"
  by (induction s) auto

lemma find_str_char: "c \<notin> set n \<Longrightarrow> find_str [c] (n @ c # t) = Some (length n)"
  by (induction n) auto

lemma find_str_char_absent: "c \<notin> set n \<Longrightarrow> find_str [c] n = None"
  by (induction n) auto

lemma take_field: "take (length (takeWhile P s)) s = takeWhile P s"
  by (metis append_eq_conv_conj takeWhile_dropWhile_id)

lemma drop_field: "drop (length (takeWhile P s)) s = dropWhile P s"
  by (metis append_eq_conv_conj takeWhile_dropWhile_id)

section \<open>Replacement as a function of the remaining text\<close>

text \<open>
  The stream view of the replacement loops: scan once from the left, emit \<open>new\<close> for every
  non-overlapping occurrence of \<open>old\<close>.
\<close>

fun replace_ref :: "'a list \<Rightarrow> 'a list \<Rightarrow> 'a list \<Rightarrow> 'a list" where
  "replace_ref old new [] = []"
| "replace_ref old new (c # cs) =
     (if old \<noteq> [] \<and> prefix old (c # cs) then new @ replace_ref old new (drop (length old - 1) cs)
      else c # replace_ref old new cs)"

lemma replace_ref_absent: "\<not> sublist old s \<Longrightarrow> replace_ref old new s = s"
  by (induction old new s rule: replace_ref.induct) (auto simp: sublist_Cons_right)

lemma replace_ref_match:
  assumes "old \<noteq> []"
  shows "replace_ref old new (old @ s) = new @ replace_ref old new s"
  using assms by (cases old) auto

lemma replace_ref_find:
  assumes "old \<noteq> []" "find_str old s = Some p"
  shows "replace_ref old new s =
    take p s @ new @ replace_ref old new (drop (p + length old) s)"
  using assms
proof (induction old s arbitrary: p rule: find_str.induct)
  case (1 pat)
  then show ?case by simp
next
  case (2 pat c cs)
  then show ?case by (cases pat) (auto split: if_splits)
qed

lemma length_replace_ref:
  "length new = length old \<Longrightarrow> length (replace_ref old new s) = length s"
proof (induction old new s rule: replace_ref.induct)
  case (2 old new c cs)
  then show ?case
    by (cases old) (auto dest!: prefix_length_le)
qed simp

text \<open>
  A pattern whose last character occurs nowhere else in it cannot overlap itself.  Such a pattern,
  put in by one replacement, is found again by the opposite one exactly where it was put.
\<close>

lemma replace_ref_prefix_tail:
  assumes "z \<notin> set w" "z \<notin> set v" "length v < length w"
    and "prefix (v @ [z]) (replace_ref old (w @ [z]) s)"
  shows "prefix (v @ [z]) s"
  using assms(2-4)
proof (induction s arbitrary: v)
  case (Cons c cs)
  show ?case
  proof (cases "old \<noteq> [] \<and> prefix old (c # cs)")
    case True
    with Cons.prems(3) have "prefix (v @ [z]) (w @ [z] @ replace_ref old (w @ [z]) (drop (length old - 1) cs))"
      by simp
    then have "(v @ [z]) ! length v = w ! length v"
      using Cons.prems(2) by (auto simp: prefix_def nth_append) (metis nth_append nth_append_length)
    then have "z \<in> set w"
      using Cons.prems(2) by (metis nth_append_length nth_mem)
    with assms(1) show ?thesis by simp
  next
    case False
    then show ?thesis
      using Cons.prems Cons.IH [of "tl v"] by (cases v) auto
  qed
qed simp

lemma replace_ref_inverse:
  assumes "z \<notin> set w" "old \<noteq> []" "\<not> sublist (w @ [z]) s"
  shows "replace_ref (w @ [z]) old (replace_ref old (w @ [z]) s) = s"
  using assms(3)
proof (induction s rule: length_induct)
  case (1 s)
  show ?case
  proof (cases s)
    case (Cons c cs)
    show ?thesis
    proof (cases "prefix old s")
      case True
      then obtain rest where s: "s = old @ rest" by (auto simp: prefix_def)
      have "\<not> sublist (w @ [z]) rest"
        using 1(2) s by (auto simp: sublist_append)
      then have "replace_ref (w @ [z]) old (replace_ref old (w @ [z]) rest) = rest"
        using 1(1) s assms(2) by simp
      then show ?thesis
        using s assms(2) by (simp add: replace_ref_match del: append_assoc)
    next
      case False
      have "\<not> sublist (w @ [z]) cs"
        using 1(2) Cons by (simp add: sublist_Cons_right)
      then have IH: "replace_ref (w @ [z]) old (replace_ref old (w @ [z]) cs) = cs"
        using 1(1) Cons by simp
      have "\<not> prefix (w @ [z]) (c # replace_ref old (w @ [z]) cs)"
      proof
        assume pre: "prefix (w @ [z]) (c # replace_ref old (w @ [z]) cs)"
        have "prefix (w @ [z]) (c # cs)"
        proof (cases w)
          case Nil
          then show ?thesis using pre by simp
        next
          case (Cons b v)
          then show ?thesis
            using pre assms(1) replace_ref_prefix_tail [of z w v old cs] by auto
        qed
        with 1(2) Cons show False by (simp add: sublist_Cons_right)
      qed
      then show ?thesis
        using IH Cons False by simp
    qed
  qed simp
qed

end
