(* ===== verification/Base.thy ===== *)
theory Base
  imports Prelude
begin

text \<open>
  The text and hashing helpers of \<open>base.cc\<close> and the key types of \<open>keys.h\<close>: splitting and joining,
  the response-file tokenizer, trimming and number parsing, \<open>ReplaceAll\<close>, hex, the length-framed
  hasher, and the server key strings.  The cursor of a scanning loop is the remaining suffix of the
  text; \<open>ReplaceAll\<close>, which edits the string under its cursor, keeps the cursor.  BLAKE3 is the
  parameter \<open>blake3\<close>, from the bytes fed so far to the first sixteen bytes of the digest.
\<close>

section \<open>Splitting text\<close>

definition is_blank :: "char \<Rightarrow> bool" where
  "is_blank c \<longleftrightarrow> c = CHR '' '' \<or> c = CHR 0x09 \<or> c = CHR 0x0A"

definition isspace :: "char \<Rightarrow> bool" where
  "isspace c \<longleftrightarrow> c \<in> {CHR '' '', CHR 0x09, CHR 0x0A, CHR 0x0B, CHR 0x0C, CHR 0x0D}"

function SplitWhitespace :: "string \<Rightarrow> string list" where
  "SplitWhitespace s =
     (if s = [] then []
      else let rest = dropWhile is_blank s;
               word = takeWhile (\<lambda>c. \<not> is_blank c) rest;
               after = dropWhile (\<lambda>c. \<not> is_blank c) rest
           in (if word \<noteq> [] then [word] else []) @ SplitWhitespace after)"
  by pat_completeness auto
termination
proof (relation "measure length", goal_cases)
  case 1
  show ?case by simp
next
  case (2 s rest word after)
  then show ?case
    by (cases s) (auto intro!: le_imp_less_Suc order_trans [OF length_dropWhile_le]
          length_dropWhile_le)
qed

declare SplitWhitespace.simps [simp del]

fun TokenizeGnu_loop :: "string \<Rightarrow> string \<Rightarrow> bool \<Rightarrow> char option \<Rightarrow> string list" where
  "TokenizeGnu_loop [] word in_word quote = (if in_word then [word] else [])"
| "TokenizeGnu_loop (c # cs) word in_word quote =
     (if c = CHR 0x5C \<and> cs \<noteq> []
      then TokenizeGnu_loop (tl cs) (word @ [hd cs]) True quote
      else if quote \<noteq> None \<and> quote = Some c
      then TokenizeGnu_loop cs word in_word None
      else if quote = None \<and> (c = CHR 0x27 \<or> c = CHR 0x22)
      then TokenizeGnu_loop cs word True (Some c)
      else if quote = None \<and> isspace c
      then if in_word then word # TokenizeGnu_loop cs [] False quote
           else TokenizeGnu_loop cs word False quote
      else TokenizeGnu_loop cs (word @ [c]) True quote)"

definition TokenizeGnu :: "string \<Rightarrow> string list" where
  "TokenizeGnu s = TokenizeGnu_loop s [] False None"

definition ExpandResponseFiles :: "(string \<Rightarrow> string option) \<Rightarrow> string list \<Rightarrow> string list" where
  "ExpandResponseFiles readf args =
     concat (map (\<lambda>arg.
       case (if starts_with arg ''@'' then readf (substr arg 1 (length arg)) else None) of
         None \<Rightarrow> [arg]
       | Some body \<Rightarrow> TokenizeGnu body) args)"

function Split :: "string \<Rightarrow> char \<Rightarrow> bool \<Rightarrow> string list" where
  "Split s sep keep_empty =
     (let field = takeWhile (\<lambda>c. c \<noteq> sep) s;
          rest = dropWhile (\<lambda>c. c \<noteq> sep) s;
          out = (if keep_empty \<or> field \<noteq> [] then [field] else [])
      in case rest of [] \<Rightarrow> out | _ # after \<Rightarrow> out @ Split after sep keep_empty)"
  by pat_completeness auto
termination
proof (relation "measure (\<lambda>(s, _, _). length s)", goal_cases)
  case 1
  show ?case by simp
next
  case (2 s sep keep_empty field rest out x after)
  then have "length (x # after) \<le> length s"
    by (metis length_dropWhile_le)
  then show ?case by simp
qed

declare Split.simps [simp del]

definition Join :: "string list \<Rightarrow> string \<Rightarrow> string" where
  "Join parts sep = foldl (\<lambda>out part. (if out \<noteq> [] then out @ sep else out) @ part) [] parts"

definition Trim :: "string \<Rightarrow> string" where
  "Trim s =
     (let blank = (\<lambda>c. c = CHR '' '' \<or> c = CHR 0x09);
          front = dropWhile blank s
      in rev (dropWhile blank (rev front)))"

section \<open>Replacing text\<close>

function ReplaceAll_loop :: "string \<Rightarrow> string \<Rightarrow> string \<Rightarrow> nat \<Rightarrow> string" where
  "ReplaceAll_loop s old new pos =
     (if old = [] then s
      else case find_from s old pos of
        None \<Rightarrow> s
      | Some p \<Rightarrow> ReplaceAll_loop (replace_at s p (length old) new) old new
                    (p + length new))"
  by pat_completeness auto
termination
proof (relation "measure (\<lambda>(s, _, _, pos). length s - pos)", goal_cases)
  case 1
  show ?case by simp
next
  case (2 s old new pos p)
  then show ?case
    using find_from_Some [OF 2(2)] by (cases old) (auto simp: Suc_le_eq)
qed

declare ReplaceAll_loop.simps [simp del]

definition ReplaceAll :: "string \<Rightarrow> string \<Rightarrow> string \<Rightarrow> string" where
  "ReplaceAll s old new = (if old = [] then s else ReplaceAll_loop s old new 0)"

section \<open>Numbers\<close>

definition digit_value :: "char \<Rightarrow> nat option" where
  "digit_value c =
     (let n = of_char c :: nat in
      if 48 \<le> n \<and> n \<le> 57 then Some (n - 48)
      else if 97 \<le> n \<and> n \<le> 122 then Some (n - 87)
      else if 65 \<le> n \<and> n \<le> 90 then Some (n - 55)
      else None)"

fun digits_value :: "nat \<Rightarrow> string \<Rightarrow> nat \<Rightarrow> nat option" where
  "digits_value base [] acc = Some acc"
| "digits_value base (c # cs) acc =
     (case digit_value c of
        None \<Rightarrow> None
      | Some d \<Rightarrow> if d < base then digits_value base cs (acc * base + d) else None)"

definition ParseUint :: "string \<Rightarrow> nat \<Rightarrow> nat option" where
  "ParseUint s base =
     (let body = Trim s in
      if body = [] then None
      else case digits_value base body 0 of
        None \<Rightarrow> None
      | Some v \<Rightarrow> if v < 2 ^ 64 then Some v else None)"

definition digit_char :: "nat \<Rightarrow> char" where
  "digit_char d = (if d < 10 then char_of (48 + d) else char_of (87 + d))"

fun to_base :: "nat \<Rightarrow> nat \<Rightarrow> string" where
  "to_base base n =
     (if base < 2 \<or> n < base then [digit_char n]
      else to_base base (n div base) @ [digit_char (n mod base)])"

declare to_base.simps [simp del]

abbreviation to_string :: "nat \<Rightarrow> string" where
  "to_string n \<equiv> to_base 10 n"

section \<open>Hashing and keys\<close>

definition HexEncode :: "string \<Rightarrow> string" where
  "HexEncode bs = concat (map (\<lambda>c. [digit_char (of_char c div 16), digit_char (of_char c mod 16)]) bs)"

type_synonym hasher = string
type_synonym digest = string

definition Update :: "hasher \<Rightarrow> string \<Rightarrow> hasher" where
  "Update h data = h @ data"

definition Field :: "hasher \<Rightarrow> string \<Rightarrow> hasher" where
  "Field h data = Update (Update h (to_string (length data) @ '':'')) data"

definition Finish :: "(string \<Rightarrow> string) \<Rightarrow> hasher \<Rightarrow> digest" where
  "Finish blake3 h = HexEncode (take 16 (blake3 h))"

definition HashOf :: "(string \<Rightarrow> string) \<Rightarrow> string \<Rightarrow> digest" where
  "HashOf blake3 data = Finish blake3 (Update [] data)"

datatype tool = KCc | KRustc

definition RequestKey :: "tool \<Rightarrow> digest \<Rightarrow> string" where
  "RequestKey t d = (if t = KRustc then ''rs/'' else []) @ d"

definition ResultKey :: "digest \<Rightarrow> string" where
  "ResultKey d = d"

definition slot_Manifest :: "string \<Rightarrow> string" where
  "slot_Manifest key = ''m/'' @ key"
definition slot_Object :: "string \<Rightarrow> string" where
  "slot_Object key = ''o/'' @ key"
definition slot_Stderr :: "string \<Rightarrow> string" where
  "slot_Stderr key = ''e/'' @ key"
definition slot_Depfile :: "string \<Rightarrow> string" where
  "slot_Depfile key = ''d/'' @ key"
definition slot_ExitStatus :: "string \<Rightarrow> string" where
  "slot_ExitStatus key = ''r/'' @ key"
definition slot_GoAction :: "string \<Rightarrow> string" where
  "slot_GoAction hex = ''go/a/'' @ hex"
definition slot_GoOutput :: "string \<Rightarrow> string" where
  "slot_GoOutput hex = ''go/o/'' @ hex"

lemmas slot_defs = slot_Manifest_def slot_Object_def slot_Stderr_def slot_Depfile_def
  slot_ExitStatus_def slot_GoAction_def slot_GoOutput_def

datatype outcome = KHit | KHitFail | KMissStored | KMissStoredFail | KMissFail | KMissUnstored
  | KPlainCompile | KPlainLink | KPlainNoSource | KPlainQuery | KPlainNoSocket

fun OutcomeName :: "outcome \<Rightarrow> string" where
  "OutcomeName KHit = ''cached''"
| "OutcomeName KHitFail = ''cached-error''"
| "OutcomeName KMissStored = ''compiled''"
| "OutcomeName KMissStoredFail = ''compiled-error''"
| "OutcomeName KMissFail = ''failed''"
| "OutcomeName KMissUnstored = ''compiled-unstored''"
| "OutcomeName KPlainCompile = ''uncacheable''"
| "OutcomeName KPlainLink = ''linked''"
| "OutcomeName KPlainNoSource = ''uncacheable-nosrc''"
| "OutcomeName KPlainQuery = ''query''"
| "OutcomeName KPlainNoSocket = ''no-daemon''"

definition LogOutcome :: "string \<Rightarrow> string \<Rightarrow> string \<Rightarrow> outcome \<Rightarrow> string \<Rightarrow> string \<Rightarrow> string" where
  "LogOutcome path log tool outcome subject ms =
     (if path = [] then log
      else log @ tool @ [CHR 0x09] @ OutcomeName outcome @ [CHR 0x09] @ subject @ [CHR 0x09] @ ms @
        [CHR 0x0A])"

section \<open>Splitting and joining\<close>

lemma Split_Nil [str_simps]: "Split [] sep k = (if k then [[]] else [])"
  by (simp add: Split.simps [of "[]"])

lemma Split_field [str_simps]:
  "sep \<notin> set f \<Longrightarrow> Split f sep k = (if k \<or> f \<noteq> [] then [f] else [])"
  by (subst Split.simps) (simp add: Let_def str_simps)

lemma Split_sep [str_simps]:
  "sep \<notin> set f \<Longrightarrow> Split (f @ sep # s) sep k = (if k \<or> f \<noteq> [] then [f] else []) @ Split s sep k"
  by (subst Split.simps) (simp add: Let_def str_simps)

lemma Split_drop_empty: "Split s sep False = filter (\<lambda>f. f \<noteq> []) (Split s sep True)"
  by (induction s rule: fields_induct [of sep]) (auto simp: str_simps)

lemma Split_not_Nil: "Split s sep True \<noteq> []"
  by (induction s rule: fields_induct [of sep]) (auto simp: str_simps)

lemma Split_fields: "f \<in> set (Split s sep k) \<Longrightarrow> sep \<notin> set f"
  by (induction s rule: fields_induct [of sep]) (auto simp: str_simps split: if_splits)

lemma Split_nonempty: "f \<in> set (Split s sep False) \<Longrightarrow> f \<noteq> []"
  by (simp add: Split_drop_empty)

text \<open>What \<open>Join\<close> does once its output has started, and what it does with nonempty parts.\<close>

definition join_rest :: "string \<Rightarrow> string list \<Rightarrow> string" where
  "join_rest sep parts = concat (map (\<lambda>p. sep @ p) parts)"

lemma Join_started:
  "out \<noteq> [] \<Longrightarrow>
   foldl (\<lambda>out part. (if out \<noteq> [] then out @ sep else out) @ part) out parts = out @ join_rest sep parts"
  by (induction parts arbitrary: out) (auto simp: join_rest_def)

lemma Join_Cons: "p \<noteq> [] \<Longrightarrow> Join (p # ps) sep = p @ join_rest sep ps"
  by (simp add: Join_def Join_started)

lemma Join_Nil [simp]: "Join [] sep = []"
  by (simp add: Join_def)

lemma join_rest_Cons: "join_rest sep (p # ps) = sep @ p @ join_rest sep ps"
  by (simp add: join_rest_def)

lemma join_rest_Nil [simp]: "join_rest sep [] = []"
  by (simp add: join_rest_def)

lemma join_rest_Split: "join_rest [sep] (Split s sep True) = sep # s"
  by (induction s rule: fields_induct [of sep]) (auto simp: str_simps join_rest_Cons)

text \<open>Joining the fields of a text gives the text back, whenever the text does not begin with the
  separator.\<close>

theorem Join_Split:
  assumes "\<not> starts_with s [sep]"
  shows "Join (Split s sep True) [sep] = s"
proof (cases "Split s sep True")
  case Nil
  then show ?thesis by (simp add: Split_not_Nil)
next
  case (Cons f fs)
  have whole: "sep # f @ join_rest [sep] fs = sep # s"
    using join_rest_Split [of sep s] Cons by (simp add: join_rest_Cons)
  show ?thesis
  proof (cases "f = []")
    case True
    then show ?thesis using whole assms Cons by (cases fs) (auto simp: Join_def join_rest_Cons)
  next
    case False
    then show ?thesis using whole Cons by (simp add: Join_Cons)
  qed
qed

theorem Join_Split_witness:
  "Join (Split ''a::b:'' CHR '':'' True) [CHR '':''] = ''a::b:''"
  using Join_Split [where s = "''a::b:''" and sep = "CHR '':''"] by simp

lemma Split_join_rest:
  assumes "\<forall>p \<in> set ps. p \<noteq> [] \<and> sep \<notin> set p" "sep \<notin> set p" "p \<noteq> []"
  shows "Split (p @ join_rest [sep] ps) sep k = p # ps"
  using assms
proof (induction ps arbitrary: p)
  case Nil
  then show ?case by (simp add: Split_field)
next
  case (Cons q ps)
  then show ?case by (simp add: join_rest_Cons Split_sep)
qed

text \<open>Splitting a joined list gives the list back when its elements are nonempty and free of the
  separator, in both splitting modes.\<close>

theorem Split_Join:
  assumes "\<forall>p \<in> set ps. p \<noteq> [] \<and> sep \<notin> set p" "ps \<noteq> []"
  shows "Split (Join ps [sep]) sep k = ps"
  using assms by (cases ps) (auto simp: Join_Cons Split_join_rest)

theorem Split_Join_witness:
  "Split (Join [''bin'', ''lib''] [CHR '':'']) CHR '':'' False = [''bin'', ''lib'']"
  using Split_Join [where ps = "[''bin'', ''lib'']" and sep = "CHR '':''" and k = False] by simp

section \<open>ReplaceAll\<close>

lemma ReplaceAll_loop_ref:
  "old \<noteq> [] \<Longrightarrow> ReplaceAll_loop (pre @ s) old new (length pre) = pre @ replace_ref old new s"
proof (induction s arbitrary: pre rule: length_induct)
  case (1 s)
  show ?case
  proof (cases "find_str old s")
    case None
    then show ?thesis
      using 1(2) find_str_None [of old s] by (subst ReplaceAll_loop.simps)
        (simp add: str_simps replace_ref_absent)
  next
    case (Some p)
    let ?rest = "drop (p + length old) s" and ?done = "pre @ take p s @ new"
    have p: "p \<le> length s" "p + length old \<le> length s" using find_str_Some [OF Some] by auto
    have "length ?rest < length s" using 1(2) p by (cases old) auto
    then have IH: "ReplaceAll_loop (?done @ ?rest) old new (length ?done) = ?done @ replace_ref old new ?rest"
      using 1 by blast
    have "ReplaceAll_loop (pre @ s) old new (length pre) =
        ReplaceAll_loop (?done @ ?rest) old new (length ?done)"
      using 1(2) by (subst ReplaceAll_loop.simps)
        (simp add: Some str_simps, simp add: replace_at_def min_absorb2 p add.assoc)
    with IH show ?thesis
      using replace_ref_find [OF 1(2) Some, of new] by simp
  qed
qed

text \<open>The in-place loop of \<open>ReplaceAll\<close>, which edits the string under its own cursor, computes the
  one-pass replacement of every non-overlapping occurrence, left to right; the inserted text is never
  searched again.\<close>

theorem ReplaceAll_is_replace_ref: "ReplaceAll s old new = replace_ref old new s"
proof (cases "old = []")
  case True
  have "replace_ref [] new s = s" by (induction s) auto
  with True show ?thesis by (simp add: ReplaceAll_def)
next
  case False
  then show ?thesis using ReplaceAll_loop_ref [of old "[]"] by (simp add: ReplaceAll_def)
qed

section \<open>Numbers: printing and parsing\<close>

lemma char_of_nat_inverse: "n < 256 \<Longrightarrow> of_char (char_of n :: char) = (n :: nat)"
  by (simp add: of_char_of)

lemma digit_value_char [simp]: "d < 36 \<Longrightarrow> digit_value (digit_char d) = Some d"
  by (auto simp: digit_value_def digit_char_def Let_def)

lemma digit_char_inj: "d < 36 \<Longrightarrow> e < 36 \<Longrightarrow> digit_char d = digit_char e \<longleftrightarrow> d = e"
  by (metis digit_value_char option.inject)

lemma digit_char_class:
  assumes "d < 36" "digit_value c = None"
  shows "digit_char d \<noteq> c"
  using assms by force

lemma digits_value_append:
  "digits_value base (s @ r) acc = Option.bind (digits_value base s acc) (digits_value base r)"
  by (induction base s acc rule: digits_value.induct) (auto split: option.splits)

lemma digit_mod [simp]: "2 \<le> base \<Longrightarrow> base \<le> 36 \<Longrightarrow> n mod base < (36 :: nat)"
  using mod_less_divisor [of base n] by linarith

lemma digits_value_to_base:
  assumes "2 \<le> base" "base \<le> 36"
  shows "digits_value base (to_base base n) 0 = Some n"
  using assms
proof (induction base n rule: to_base.induct)
  case (1 base n)
  show ?case
  proof (cases "n < base")
    case True
    then show ?thesis using 1(2,3) by (subst to_base.simps) simp
  next
    case False
    then show ?thesis
      using 1 by (subst to_base.simps) (simp add: digits_value_append)
  qed
qed

lemma to_base_not_Nil [simp]: "to_base base n \<noteq> []"
  by (subst to_base.simps) simp

lemma to_base_digits: "2 \<le> base \<Longrightarrow> base \<le> 36 \<Longrightarrow> c \<in> set (to_base base n) \<Longrightarrow> digit_value c \<noteq> None"
proof (induction base n rule: to_base.induct)
  case (1 base n)
  then show ?case
    by (subst (asm) (2) to_base.simps) (auto split: if_splits simp del: not_None_eq)
qed

lemma to_base_inj: "2 \<le> base \<Longrightarrow> base \<le> 36 \<Longrightarrow> to_base base m = to_base base n \<longleftrightarrow> m = n"
  by (metis digits_value_to_base option.inject)

lemma Trim_id:
  assumes "s \<noteq> []" "hd s \<notin> {CHR '' '', CHR 0x09}" "last s \<notin> {CHR '' '', CHR 0x09}"
  shows "Trim s = s"
proof -
  have *: "dropWhile (\<lambda>c. c = CHR '' '' \<or> c = CHR 0x09) r = r"
    if "r \<noteq> []" "hd r \<notin> {CHR '' '', CHR 0x09}" for r :: string
    using that by (cases r) auto
  show ?thesis using assms by (simp add: Trim_def * hd_rev)
qed

lemma digit_value_blank [simp]:
  "digit_value CHR '' '' = None" "digit_value CHR 0x09 = None" "digit_value CHR 0x0A = None"
  "digit_value CHR '':'' = None" "digit_value CHR ''/'' = None"
  by (simp_all add: digit_value_def)

lemma Trim_to_base:
  assumes "2 \<le> base" "base \<le> 36"
  shows "Trim (to_base base n) = to_base base n"
proof (rule Trim_id)
  have *: "c \<notin> {CHR '' '', CHR 0x09}" if "c \<in> set (to_base base n)" for c
    using to_base_digits [OF assms that] by auto
  show "hd (to_base base n) \<notin> {CHR '' '', CHR 0x09}" "last (to_base base n) \<notin> {CHR '' '', CHR 0x09}"
    by (rule *, simp)+
qed simp

lemma ParseUint_digits:
  "2 \<le> base \<Longrightarrow> base \<le> 36 \<Longrightarrow> n < 2 ^ 64 \<Longrightarrow> ParseUint (to_base base n) base = Some n"
  by (simp add: ParseUint_def Let_def Trim_to_base digits_value_to_base)

text \<open>A 64-bit number printed in any base from 2 to 36 parses back to itself, and a printed number
  that needs more than 64 bits is refused.\<close>

theorem ParseUint_to_base:
  assumes "2 \<le> base" "base \<le> 36"
  shows "ParseUint (to_base base n) base = (if n < 2 ^ 64 then Some n else None)"
  using assms by (simp add: ParseUint_def Let_def Trim_to_base digits_value_to_base)

theorem ParseUint_to_base_witness:
  "ParseUint (to_base 10 18446744073709551615) 10 = Some 18446744073709551615 \<and>
   ParseUint (to_base 10 18446744073709551616) 10 = None"
  using ParseUint_to_base [of 10 18446744073709551615] ParseUint_to_base [of 10 18446744073709551616]
  by simp

section \<open>Hex and the framed hasher\<close>

lemma hex_pair_inj:
  fixes c d :: char
  assumes "digit_char (of_char c div 16) = digit_char (of_char d div 16)"
    and "digit_char (of_char c mod 16) = digit_char (of_char d mod 16)"
  shows "c = d"
proof -
  have "(of_char x :: nat) div 16 < 36" for x :: char
    using of_char_nibble [of x] by linarith
  then have "(of_char c :: nat) div 16 = of_char d div 16"
    using assms(1) by (subst (asm) digit_char_inj) auto
  moreover have "(of_char c :: nat) mod 16 = of_char d mod 16"
    using assms(2) by (subst (asm) digit_char_inj) (auto intro: order.strict_trans [OF mod_less_divisor])
  ultimately have "(of_char c :: nat) = of_char d"
    by (metis div_mult_mod_eq)
  then show ?thesis by simp
qed

lemma HexEncode_Cons:
  "HexEncode (c # cs) = digit_char (of_char c div 16) # digit_char (of_char c mod 16) # HexEncode cs"
  by (simp add: HexEncode_def)

lemma HexEncode_Nil [simp]: "HexEncode [] = []"
  by (simp add: HexEncode_def)

lemma HexEncode_inj: "HexEncode a = HexEncode b \<longleftrightarrow> a = b"
proof (induction a arbitrary: b)
  case Nil
  show ?case by (cases b) (simp_all add: HexEncode_Cons)
next
  case (Cons c cs)
  show ?case
  proof (cases b)
    case (Cons d ds)
    have "HexEncode (c # cs) = HexEncode (d # ds) \<longleftrightarrow> c = d \<and> HexEncode cs = HexEncode ds"
      unfolding HexEncode_Cons list.inject using hex_pair_inj [of c d] by blast
    with Cons show ?thesis by (simp add: Cons.IH)
  qed (simp add: HexEncode_Cons)
qed

lemma length_HexEncode [simp]: "length (HexEncode s) = 2 * length s"
  by (induction s) (auto simp: HexEncode_Cons)

definition frame :: "string \<Rightarrow> string" where
  "frame x = to_string (length x) @ CHR '':'' # x"

lemma Field_frame: "Field h x = h @ frame x"
  by (simp add: Field_def Update_def frame_def)

lemma foldl_Field: "foldl Field h xs = h @ concat (map frame xs)"
  by (induction xs arbitrary: h) (simp_all add: Field_frame)

lemma colon_not_digit [simp]: "CHR '':'' \<notin> set (to_string n)"
  using to_base_digits [of 10] by force

lemma frame_append_inj: "frame x @ u = frame y @ v \<longleftrightarrow> x = y \<and> u = v"
proof
  assume eq: "frame x @ u = frame y @ v"
  then have "takeWhile (\<lambda>c. c \<noteq> CHR '':'') (frame x @ u) = takeWhile (\<lambda>c. c \<noteq> CHR '':'') (frame y @ v)"
    by simp
  then have "length x = length y"
    by (simp add: frame_def field_takeWhile to_base_inj)
  with eq show "x = y \<and> u = v" by (simp add: frame_def)
qed simp

lemma frames_inj: "concat (map frame xs) = concat (map frame ys) \<longleftrightarrow> xs = ys"
proof (induction xs arbitrary: ys)
  case Nil
  show ?case by (cases ys) (auto simp: frame_def)
next
  case (Cons x xs)
  then show ?case by (cases ys) (auto simp: frame_append_inj, simp add: frame_def)
qed

text \<open>C39: the byte stream a hasher is fed determines the sequence of fields: no choice of field
  contents can move a field boundary.\<close>

theorem Field_sequence_inj: "foldl Field [] xs = foldl Field [] ys \<longleftrightarrow> xs = ys"
  by (simp add: foldl_Field frames_inj)

section \<open>The response-file tokenizer\<close>

text \<open>A response file as build tools write it: one double-quoted word per line, quotes and backslashes
  inside a word escaped.\<close>

definition gnu_escape :: "string \<Rightarrow> string" where
  "gnu_escape w = concat (map (\<lambda>c. if c = CHR 0x22 \<or> c = CHR 0x5C then [CHR 0x5C, c] else [c]) w)"

definition gnu_quote :: "string \<Rightarrow> string" where
  "gnu_quote w = CHR 0x22 # gnu_escape w @ [CHR 0x22]"

definition gnu_lines :: "string list \<Rightarrow> string" where
  "gnu_lines ws = concat (map (\<lambda>w. gnu_quote w @ [CHR 0x0A]) ws)"

lemma TokenizeGnu_inside_quotes:
  "TokenizeGnu_loop (gnu_escape w @ CHR 0x22 # rest) acc True (Some CHR 0x22) =
   TokenizeGnu_loop rest (acc @ w) True None"
  by (induction w arbitrary: acc) (auto simp: gnu_escape_def)

lemma TokenizeGnu_line:
  "TokenizeGnu_loop (gnu_quote w @ CHR 0x0A # rest) [] False None = w # TokenizeGnu_loop rest [] False None"
  by (simp add: gnu_quote_def TokenizeGnu_inside_quotes isspace_def)

text \<open>Every argument list, empty words and words with blanks, quotes or backslashes included,
  survives a response file: the tokenizer reads back exactly the words that were written.\<close>

theorem TokenizeGnu_roundtrip: "TokenizeGnu (gnu_lines ws) = ws"
  by (induction ws) (simp_all add: TokenizeGnu_def gnu_lines_def TokenizeGnu_line)

lemma ExpandResponseFiles_append:
  "ExpandResponseFiles rf (xs @ ys) = ExpandResponseFiles rf xs @ ExpandResponseFiles rf ys"
  by (simp add: ExpandResponseFiles_def)

lemma ExpandResponseFiles_plain:
  "\<forall>a \<in> set args. \<not> starts_with a ''@'' \<or> rf (tl a) = None \<Longrightarrow> ExpandResponseFiles rf args = args"
proof (induction args)
  case (Cons a args)
  then show ?case by (cases a) (auto simp: ExpandResponseFiles_def substr_def)
qed (simp add: ExpandResponseFiles_def)

section \<open>Server keys\<close>

datatype slot_key = SManifest tool digest | SObject digest | SStderr digest | SDepfile digest
  | SExitStatus digest | SGoAction string | SGoOutput string

fun slot_text :: "slot_key \<Rightarrow> string" where
  "slot_text (SManifest t d) = slot_Manifest (RequestKey t d)"
| "slot_text (SObject d) = slot_Object (ResultKey d)"
| "slot_text (SStderr d) = slot_Stderr (ResultKey d)"
| "slot_text (SDepfile d) = slot_Depfile (ResultKey d)"
| "slot_text (SExitStatus d) = slot_ExitStatus (ResultKey d)"
| "slot_text (SGoAction h) = slot_GoAction h"
| "slot_text (SGoOutput h) = slot_GoOutput h"

fun slot_digest :: "slot_key \<Rightarrow> string" where
  "slot_digest (SManifest t d) = d"
| "slot_digest (SObject d) = d"
| "slot_digest (SStderr d) = d"
| "slot_digest (SDepfile d) = d"
| "slot_digest (SExitStatus d) = d"
| "slot_digest (SGoAction h) = h"
| "slot_digest (SGoOutput h) = h"

lemma set_HexEncode: "c \<in> set (HexEncode s) \<Longrightarrow> digit_value c \<noteq> None"
proof (induction s)
  case (Cons b s)
  have "(of_char b :: nat) div 16 < 36"
    using of_char_nibble [of b] by linarith
  with Cons show ?case by (auto simp: HexEncode_Cons)
qed simp

lemma slash_not_hex [simp]: "CHR ''/'' \<notin> set (HexEncode s)"
  using set_HexEncode [of "CHR ''/''" s] by auto

lemma slash_not_Finish [simp]: "CHR ''/'' \<notin> set (Finish blake3 h)"
  by (simp add: Finish_def)

text \<open>Server keys of different kinds, tools or digests are different strings, so one server can
  hold the C, rustc and Go entries without any of them overwriting another's.\<close>

theorem slot_text_inj:
  assumes "CHR ''/'' \<notin> set (slot_digest k)" "CHR ''/'' \<notin> set (slot_digest k')"
  shows "slot_text k = slot_text k' \<longleftrightarrow> k = k'"
  using assms
  by (cases k; cases k') (auto simp: slot_defs RequestKey_def ResultKey_def split: if_splits,
      (metis tool.exhaust)+)

theorem slot_text_inj_witness:
  "slot_text (SManifest KRustc (Finish (\<lambda>s. s) ''ab'')) \<noteq> slot_text (SManifest KCc (Finish (\<lambda>s. s) ''ab''))"
  using slot_text_inj [of "SManifest KRustc (Finish (\<lambda>s. s) ''ab'')" "SManifest KCc (Finish (\<lambda>s. s) ''ab'')"]
  by simp

lemma OutcomeName_inj: "OutcomeName a = OutcomeName b \<longleftrightarrow> a = b"
  by (cases a; cases b) simp_all

end
