(* ===== verification/Paths.thy ===== *)
theory Paths
  imports Base
begin

text \<open>
  The lexical part of \<open>std::filesystem::path\<close> on POSIX, as far as the sources use it: \<open>filename\<close>,
  \<open>parent_path\<close>, \<open>operator/\<close> and \<open>lexically_normal\<close>.  A path is its native string.  The
  normal form is computed on a stack of components, the last one on top.
\<close>

abbreviation slash :: char where
  "slash \<equiv> CHR ''/''"

definition is_absolute :: "string \<Rightarrow> bool" where
  "is_absolute p \<longleftrightarrow> starts_with p ''/''"

definition path_filename :: "string \<Rightarrow> string" where
  "path_filename p = rev (takeWhile (\<lambda>c. c \<noteq> slash) (rev p))"

definition parent_path :: "string \<Rightarrow> string" where
  "parent_path p =
     (let stripped = dropWhile (\<lambda>c. c \<noteq> slash) (rev p);
          body = dropWhile (\<lambda>c. c = slash) stripped
      in if body = [] then rev stripped else rev body)"

definition path_append :: "string \<Rightarrow> string \<Rightarrow> string" where
  "path_append p q =
     (if is_absolute q then q
      else if p = [] \<or> ends_with p ''/'' then p @ q
      else p @ ''/'' @ q)"

text \<open>\<open>extension\<close>, \<open>stem\<close> and \<open>replace_extension\<close> (for a replacement that has its dot), and the elements of a
  path, which is what \<open>==\<close> compares: repeated separators do not count.\<close>

definition path_extension :: "string \<Rightarrow> string" where
  "path_extension p =
     (let name = path_filename p in
      if name \<in> {[], ''.'', ''..''} then []
      else case rfind_str ''.'' name of
        None \<Rightarrow> []
      | Some pos \<Rightarrow> if pos = 0 then [] else drop pos name)"

definition path_stem :: "string \<Rightarrow> string" where
  "path_stem p = take (length (path_filename p) - length (path_extension p)) (path_filename p)"

definition replace_extension :: "string \<Rightarrow> string \<Rightarrow> string" where
  "replace_extension p ext = take (length p - length (path_extension p)) p @ ext"

definition path_elements :: "string \<Rightarrow> string list" where
  "path_elements p =
     (if is_absolute p then [''/''] else []) @ Split p slash False @
     (if Split p slash False \<noteq> [] \<and> ends_with p ''/'' then [[]] else [])"

definition path_eq :: "string \<Rightarrow> string \<Rightarrow> bool" where
  "path_eq p q \<longleftrightarrow> path_elements p = path_elements q"

definition norm_push :: "bool \<Rightarrow> string list \<Rightarrow> string \<Rightarrow> string list" where
  "norm_push root st c =
     (if c = ''.'' then st
      else if c = ''..'' then
        (case st of
           [] \<Rightarrow> if root then [] else [c]
         | upper # below \<Rightarrow> if upper = ''..'' then c # st else below)
      else c # st)"

definition norm_stack :: "bool \<Rightarrow> string list \<Rightarrow> string list" where
  "norm_stack root cs = foldl (norm_push root) [] cs"

definition lexically_normal :: "string \<Rightarrow> string" where
  "lexically_normal p =
     (if p = [] then []
      else let root = is_absolute p;
               cs = Split p slash False;
               st = norm_stack root cs;
               dangling = ends_with p ''/'' \<or> (cs \<noteq> [] \<and> last cs \<in> {''.'', ''..''})
           in if st = [] then (if root then ''/'' else ''.'')
              else (if root then ''/'' else []) @ Join (rev st) ''/'' @
                (if dangling \<and> hd st \<noteq> ''..'' then ''/'' else []))"

section \<open>File names\<close>

lemma path_filename_no_slash [simp]: "slash \<notin> set (path_filename p)"
  by (auto simp: path_filename_def dest: set_takeWhileD)

lemma path_filename_last: "slash \<notin> set n \<Longrightarrow> path_filename (d @ ''/'' @ n) = n"
  by (simp add: path_filename_def field_takeWhile)

lemma path_filename_id: "slash \<notin> set n \<Longrightarrow> path_filename n = n"
  by (simp add: path_filename_def field_takeWhile)

lemma path_filename_append:
  assumes "slash \<notin> set n"
  shows "path_filename (path_append d n) = n"
proof (cases "d = [] \<or> \<not> ends_with d ''/''")
  case True
  with assms show ?thesis
    using path_filename_last [OF assms, of d]
    by (cases n) (auto simp: path_append_def is_absolute_def path_filename_id)
next
  case False
  then obtain e where "d = e @ ''/''" by (auto simp: suffix_def)
  with assms show ?thesis
    using path_filename_last [OF assms, of e]
    by (cases n) (auto simp: path_append_def is_absolute_def)
qed

section \<open>The normal form\<close>

definition is_name :: "string \<Rightarrow> bool" where
  "is_name c \<longleftrightarrow> c \<noteq> [] \<and> slash \<notin> set c \<and> c \<noteq> ''.'' \<and> c \<noteq> ''..''"

text \<open>Components in order: parent references only in front, and none below the root.\<close>

fun normal_components :: "bool \<Rightarrow> string list \<Rightarrow> bool" where
  "normal_components root [] = True"
| "normal_components root (c # cs) =
     (if c = ''..'' then \<not> root \<and> normal_components root cs else is_name c \<and> list_all is_name cs)"

lemma normal_components_snoc:
  "normal_components root cs \<Longrightarrow> is_name c \<Longrightarrow> normal_components root (cs @ [c])"
  by (induction root cs rule: normal_components.induct) (auto simp: is_name_def split: if_splits)

lemma normal_components_butlast:
  "normal_components root (cs @ [c]) \<Longrightarrow> normal_components root cs"
  by (induction root cs rule: normal_components.induct) (auto split: if_splits)

lemma normal_components_dotdot:
  "normal_components False (cs @ [''..'']) \<Longrightarrow> normal_components False (cs @ [''..'', ''..''])"
  by (induction "False" cs rule: normal_components.induct) (auto simp: is_name_def split: if_splits)

lemma normal_components_root_no_dotdot:
  "normal_components True cs \<Longrightarrow> ''..'' \<notin> set cs"
  by (cases cs) (auto simp: is_name_def list_all_iff split: if_splits)

lemma norm_push_normal:
  assumes "normal_components root (rev st)" "c \<noteq> []" "slash \<notin> set c"
  shows "normal_components root (rev (norm_push root st c))"
proof (cases "c = ''..''")
  case False
  then show ?thesis
    using assms normal_components_snoc [of root "rev st" c] by (auto simp: norm_push_def is_name_def)
next
  case True
  show ?thesis
  proof (cases st)
    case Nil
    then show ?thesis using True by (simp add: norm_push_def)
  next
    case (Cons upper below)
    show ?thesis
    proof (cases "upper = ''..''")
      case True
      with assms(1) Cons normal_components_root_no_dotdot [of "rev st"] have "\<not> root" by auto
      then show ?thesis
        using True \<open>c = ''..''\<close> Cons assms(1) normal_components_dotdot [of "rev below"]
        by (simp add: norm_push_def)
    next
      case False
      then show ?thesis
        using \<open>c = ''..''\<close> Cons assms(1) normal_components_butlast [of root "rev below" upper]
        by (simp add: norm_push_def)
    qed
  qed
qed

lemma norm_stack_normal:
  assumes "\<forall>c \<in> set cs. c \<noteq> [] \<and> slash \<notin> set c"
  shows "normal_components root (rev (norm_stack root cs))"
proof -
  have "normal_components root (rev (foldl (norm_push root) st cs))"
    if "normal_components root (rev st)" for st
    using that assms
  proof (induction cs arbitrary: st)
    case (Cons c cs)
    then show ?case using norm_push_normal [of root st c] by simp
  qed simp
  then show ?thesis by (simp add: norm_stack_def)
qed

lemma norm_stack_names:
  "list_all is_name cs \<Longrightarrow> foldl (norm_push root) st cs = rev cs @ st"
  by (induction cs arbitrary: st) (auto simp: norm_push_def is_name_def)

lemma norm_stack_fixpoint:
  assumes "normal_components root cs"
  shows "norm_stack root cs = rev cs"
proof -
  have "foldl (norm_push root) st cs = rev cs @ st" if "set st \<subseteq> {''..''}" for st
    using that assms
  proof (induction root cs arbitrary: st rule: normal_components.induct)
    case (2 root c cs)
    show ?case
    proof (cases "c = ''..''")
      case True
      have "norm_push root st c = c # st"
        using True 2 by (cases st) (auto simp: norm_push_def)
      moreover have "foldl (norm_push root) (c # st) cs = rev cs @ (c # st)"
        using 2 True by (intro "2.IH") auto
      ultimately show ?thesis by simp
    next
      case False
      then show ?thesis
        using 2 norm_stack_names [of "c # cs" root st] by simp
    qed
  qed simp
  from this [of "[]"] show ?thesis by (simp add: norm_stack_def)
qed

abbreviation is_component :: "string \<Rightarrow> bool" where
  "is_component c \<equiv> c \<noteq> [] \<and> slash \<notin> set c"

lemma normal_components_component:
  "normal_components root cs \<Longrightarrow> \<forall>c \<in> set cs. is_component c \<and> c \<noteq> ''.''"
  by (induction root cs rule: normal_components.induct)
    (auto simp: is_name_def list_all_iff split: if_splits)

lemma Split_leading_sep: "Split (sep # s) sep False = Split s sep False"
  using Split_sep [of sep "[]" s False] by simp

lemma Split_trailing_sep: "Split (s @ [sep]) sep False = Split s sep False"
  by (induction s rule: fields_induct [of sep]) (auto simp: str_simps)

lemma Split_components:
  assumes "\<forall>c \<in> set cs. is_component c"
  shows "Split (Join cs ''/'') slash False = cs"
proof (cases cs)
  case (Cons c cs')
  then show ?thesis using assms Split_join_rest [of cs' slash c False] by (simp add: Join_Cons)
qed (simp add: str_simps)

lemma hd_Join: "cs \<noteq> [] \<Longrightarrow> hd cs \<noteq> [] \<Longrightarrow> hd (Join cs sep) = hd (hd cs) \<and> Join cs sep \<noteq> []"
  by (cases cs) (auto simp: Join_Cons hd_append)

lemma last_Join:
  assumes "cs \<noteq> []" "\<forall>c \<in> set cs. c \<noteq> []"
  shows "last (Join cs sep) = last (last cs)"
proof (cases cs)
  case (Cons c cs')
  have "last (x @ join_rest sep ys) = last (last (x # ys))" if "x \<noteq> []" "\<forall>y \<in> set ys. y \<noteq> []" for x ys
    using that by (induction ys arbitrary: x) (auto simp: join_rest_Cons last_append)
  with Cons assms show ?thesis by (simp add: Join_Cons)
qed (use assms in simp)

lemma ends_with_char: "s \<noteq> [] \<Longrightarrow> ends_with s [c] \<longleftrightarrow> last s = c"
  by (metis append_butlast_last_id last_snoc suffix_def)

lemma starts_with_char: "s \<noteq> [] \<Longrightarrow> starts_with s [c] \<longleftrightarrow> hd s = c"
  by (cases s) auto

text \<open>The text of a normal form, and that normalising it changes nothing.\<close>

definition render_normal :: "bool \<Rightarrow> string list \<Rightarrow> bool \<Rightarrow> string" where
  "render_normal root cs trail = (if root then ''/'' else []) @ Join cs ''/'' @ (if trail then ''/'' else [])"

lemma lexically_normal_render:
  assumes cs: "normal_components root cs" "cs \<noteq> []" and trail: "trail \<longrightarrow> last cs \<noteq> ''..''"
  shows "lexically_normal (render_normal root cs trail) = render_normal root cs trail"
proof -
  let ?p = "render_normal root cs trail"
  note comp = normal_components_component [OF cs(1)]
  have "hd cs \<in> set cs" "last cs \<in> set cs" using cs(2) by simp_all
  then have "is_component (hd cs)" "is_component (last cs)" using comp by blast+
  then have "hd (hd cs) \<noteq> slash" "last (last cs) \<noteq> slash" by (metis hd_in_set, metis last_in_set)
  then have J: "Join cs ''/'' \<noteq> []" "hd (Join cs ''/'') \<noteq> slash" "last (Join cs ''/'') \<noteq> slash"
    using hd_Join [of cs "''/''"] last_Join [of cs "''/''"] comp cs(2) \<open>is_component (hd cs)\<close>
    by simp_all
  have ne: "?p \<noteq> []" using J by (simp add: render_normal_def)
  have abs: "is_absolute ?p = root"
    using J(1,2) by (cases "Join cs ''/''") (auto simp: is_absolute_def render_normal_def)
  have split: "Split ?p slash False = cs"
    using Split_components comp by (auto simp: render_normal_def Split_leading_sep
        append_assoc [symmetric] Split_trailing_sep simp del: append_assoc)
  have ends: "ends_with ?p ''/'' = trail"
    using J(1,3) by (subst ends_with_char [OF ne]) (auto simp: render_normal_def)
  have "norm_stack root cs = rev cs" by (rule norm_stack_fixpoint [OF cs(1)])
  moreover have "last cs \<noteq> ''.''" using comp cs(2) by simp
  ultimately show ?thesis
    using cs(2) trail ne
    by (auto simp: lexically_normal_def abs split ends hd_rev Let_def) (auto simp: render_normal_def)
qed

text \<open>\<open>lexically_normal\<close> is idempotent, so normalising an already normalised path never changes a
  cache key.\<close>

theorem lexically_normal_idem: "lexically_normal (lexically_normal p) = lexically_normal p"
proof (cases "p = []")
  case False
  let ?root = "is_absolute p" and ?cs = "Split p slash False"
  let ?st = "norm_stack ?root ?cs"
  let ?dangling = "ends_with p ''/'' \<or> (?cs \<noteq> [] \<and> last ?cs \<in> {''.'', ''..''})"
  have normal: "normal_components ?root (rev ?st)"
    using Split_fields [of _ p slash False] Split_nonempty [of _ p slash]
    by (intro norm_stack_normal) blast
  show ?thesis
  proof (cases "?st = []")
    case True
    then have "lexically_normal p = (if ?root then ''/'' else ''.'')"
      using False by (simp add: lexically_normal_def Let_def)
    then show ?thesis
      by (simp add: lexically_normal_def is_absolute_def str_simps norm_stack_def norm_push_def
          Split_leading_sep Let_def)
  next
    case st: False
    then have "lexically_normal p = render_normal ?root (rev ?st) (?dangling \<and> hd ?st \<noteq> ''..'')"
      using False by (simp add: lexically_normal_def Let_def render_normal_def)
    then show ?thesis
      using lexically_normal_render [OF normal, of "?dangling \<and> hd ?st \<noteq> ''..''"] st
      by (simp add: last_rev)
  qed
qed (simp add: lexically_normal_def)

end
