(* ===== verification/Files.thy ===== *)
theory Files
  imports Paths
begin

text \<open>
  The file helpers of \<open>base.cc\<close>: \<open>UniqueFd\<close>, \<open>ReadFile\<close>, \<open>WriteFile\<close>, \<open>Env\<close> and \<open>OnPath\<close>.
  A file system is a map from paths to contents.  The kernel appears as a parameter: \<open>rd\<close> decides
  how many bytes each \<open>read(2)\<close> delivers, or that it fails, and a \<open>write_plan\<close> says which step of
  a write fails.
\<close>

type_synonym file_map = "string \<Rightarrow> string option"
type_synonym env = "string \<Rightarrow> string option"

section \<open>Reading\<close>

definition kReadChunk :: nat where
  "kReadChunk = 65536"

text \<open>\<open>read(2)\<close> at an offset: at least one byte while any is left and asked for, zero at the end.\<close>

definition sys_read :: "string \<Rightarrow> (nat \<Rightarrow> nat \<Rightarrow> nat option) \<Rightarrow> nat \<Rightarrow> nat \<Rightarrow> nat option" where
  "sys_read content rd off n =
     (case rd off n of
        None \<Rightarrow> None
      | Some k \<Rightarrow> Some (min (max 1 k) (min n (length content - off))))"

function ReadFile_fill ::
  "string \<Rightarrow> (nat \<Rightarrow> nat \<Rightarrow> nat option) \<Rightarrow> nat \<Rightarrow> nat \<Rightarrow> nat \<times> bool" where
  "ReadFile_fill content rd capacity filled =
     (if filled < capacity then
        case sys_read content rd filled (capacity - filled) of
          None \<Rightarrow> (filled, True)
        | Some got \<Rightarrow>
            if got = 0 then (filled, False)
            else ReadFile_fill content rd capacity (filled + got)
      else (filled, False))"
  by pat_completeness auto
termination
  by (relation "measure (\<lambda>(_, _, capacity, filled). capacity - filled)") auto

declare ReadFile_fill.simps [simp del]

lemma ReadFile_fill_mono:
  "ReadFile_fill content rd capacity filled = (f, failed) \<Longrightarrow> filled \<le> f"
  by (induction content rd capacity filled rule: ReadFile_fill.induct)
    (subst (asm) (2) ReadFile_fill.simps, fastforce split: if_splits option.splits)

lemma ReadFile_fill_bound:
  "ReadFile_fill content rd capacity filled = (f, failed) \<Longrightarrow> f \<le> max filled (min capacity (length content))"
proof (induction content rd capacity filled rule: ReadFile_fill.induct)
  case (1 content rd capacity filled)
  show ?case
  proof (cases "filled < capacity \<and> sys_read content rd filled (capacity - filled) \<notin> {None, Some 0}")
    case True
    then obtain got where got: "sys_read content rd filled (capacity - filled) = Some got" "got \<noteq> 0"
      by auto
    then have "got \<le> capacity - filled" "got \<le> length content - filled"
      by (auto simp: sys_read_def split: option.splits)
    moreover have "f \<le> max (filled + got) (min capacity (length content))"
      using 1 True got by (simp add: ReadFile_fill.simps [of content rd capacity filled])
    ultimately show ?thesis using got(2) True by (auto simp: max_def min_def split: if_splits)
  next
    case False
    then show ?thesis
      using 1(2) by (subst (asm) ReadFile_fill.simps) (auto split: if_splits option.splits)
  qed
qed

function ReadFile_loop ::
  "string \<Rightarrow> (nat \<Rightarrow> nat \<Rightarrow> nat option) \<Rightarrow> nat \<Rightarrow> nat \<Rightarrow> string option" where
  "ReadFile_loop content rd want filled =
     (case ReadFile_fill content rd want filled of
        (f, failed) \<Rightarrow>
          if f < want then (if failed then None else Some (take f content))
          else if failed then None
          else ReadFile_loop content rd (f + kReadChunk) f)"
  by pat_completeness auto
termination
proof (relation "measure (\<lambda>(content, _, want, filled).
    Suc (length content) - filled + (if want \<le> filled then 1 else 0))", goal_cases)
  case 1
  show ?case by simp
next
  case (2 content rd want filled f failed)
  then have "filled \<le> f" "f \<le> max filled (min want (length content))" "want \<le> f"
    using ReadFile_fill_mono ReadFile_fill_bound by (metis, metis, simp)
  then show ?case by (auto simp: kReadChunk_def max_def min_def split: if_splits)
qed

declare ReadFile_loop.simps [simp del]

definition ReadFile :: "file_map \<Rightarrow> (string \<Rightarrow> nat) \<Rightarrow> (nat \<Rightarrow> nat \<Rightarrow> nat option) \<Rightarrow> string \<Rightarrow> string option" where
  "ReadFile files st_size rd path =
     (case files path of
        None \<Rightarrow> None
      | Some content \<Rightarrow>
          let known = st_size path in
          ReadFile_loop content rd (if known > 0 then known + 1 else kReadChunk) 0)"

lemma ReadFile_fill_short:
  assumes "ReadFile_fill content rd capacity filled = (f, False)" "f < capacity" "filled \<le> length content"
  shows "f = length content"
  using assms
proof (induction content rd capacity filled rule: ReadFile_fill.induct)
  case (1 content rd capacity filled)
  from 1(2) 1(3) show ?case
    using 1(4) 1(1)
    by (subst (asm) ReadFile_fill.simps)
      (auto simp: sys_read_def split: if_splits option.splits)
qed

lemma ReadFile_fill_ok:
  assumes "\<forall>off n. rd off n \<noteq> None"
  shows "\<not> snd (ReadFile_fill content rd capacity filled)"
  using assms
proof (induction content rd capacity filled rule: ReadFile_fill.induct)
  case (1 content rd capacity filled)
  then show ?case
    by (subst ReadFile_fill.simps) (auto simp: sys_read_def split: option.splits, metis option.distinct(1))
qed

lemma ReadFile_loop_whole:
  "filled \<le> length content \<Longrightarrow>
   ReadFile_loop content rd want filled \<in> {None, Some content} \<and>
   ((\<forall>off n. rd off n \<noteq> None) \<longrightarrow> ReadFile_loop content rd want filled = Some content)"
proof (induction content rd want filled rule: ReadFile_loop.induct)
  case (1 content rd want filled)
  obtain f failed where fill: "ReadFile_fill content rd want filled = (f, failed)" by fastforce
  have f: "f \<le> length content"
    using ReadFile_fill_bound [OF fill] 1(2) by (simp add: max_def min_def split: if_splits)
  have ok: "(\<forall>off n. rd off n \<noteq> None) \<longrightarrow> \<not> failed"
    using ReadFile_fill_ok [of rd content want filled] fill by simp
  show ?case
  proof (cases "f < want")
    case True
    then have "\<not> failed \<Longrightarrow> f = length content"
      using ReadFile_fill_short [of content rd want filled f] fill 1(2) by simp
    then show ?thesis
      using True fill ok by (subst (1 2) ReadFile_loop.simps) auto
  next
    case False
    then show ?thesis
      using 1(1) [OF fill [symmetric]] fill ok f by (subst (1 2) ReadFile_loop.simps) auto
  qed
qed

text \<open>C28: \<open>ReadFile\<close> never returns part of a file.  Whatever sizes the kernel delivers and whatever size
  \<open>fstat\<close> reported, the result is the whole content or an error, and without a failing \<open>read\<close> it is
  the content.\<close>

theorem ReadFile_whole:
  assumes "files path = Some content"
  shows "ReadFile files st_size rd path \<in> {None, Some content} \<and>
    ((\<forall>off n. rd off n \<noteq> None) \<longrightarrow> ReadFile files st_size rd path = Some content)"
  using assms ReadFile_loop_whole [of 0 content rd] by (simp add: ReadFile_def Let_def)

theorem ReadFile_whole_witness:
  "ReadFile [''f'' \<mapsto> ''hello''] (\<lambda>_. 2) (\<lambda>_ _. Some 1) ''f'' = Some ''hello''"
  using ReadFile_whole [of "[''f'' \<mapsto> ''hello'']" "''f''" "''hello''" "\<lambda>_. 2" "\<lambda>_ _. Some 1"]
  by simp

section \<open>Writing\<close>

text \<open>How a write goes: whether the temporary file opens, after how many bytes the device is full
  (\<open>None\<close>: never), and whether the rename succeeds.\<close>

record write_plan =
  wp_open :: bool
  wp_full :: "nat option"
  wp_rename :: bool

definition WriteFile_tmp :: "nat \<Rightarrow> string \<Rightarrow> string" where
  "WriteFile_tmp pid path =
     path_append (parent_path path) (''.jig'' @ to_string pid @ ''.'' @ path_filename path)"

text \<open>The result and every state of the file system on the way, the last one at the end.\<close>

definition WriteFile :: "write_plan \<Rightarrow> nat \<Rightarrow> file_map \<Rightarrow> string \<Rightarrow> string \<Rightarrow> bool \<times> file_map list" where
  "WriteFile plan pid files path data =
     (let tmp = WriteFile_tmp pid path in
      if \<not> wp_open plan then (False, [files, files(tmp := None)])
      else let opened = files(tmp \<mapsto> []);
               kept = (case wp_full plan of None \<Rightarrow> length data | Some n \<Rightarrow> min n (length data));
               written = files(tmp \<mapsto> take kept data)
           in if kept < length data then (False, [files, opened, written, written(tmp := None)])
              else if \<not> wp_rename plan then (False, [files, opened, written])
              else (True, [files, opened, written, (written(path \<mapsto> data))(tmp := None)]))"

lemma WriteFile_tmp_neq [simp]: "WriteFile_tmp pid path \<noteq> path"
proof -
  let ?n = "''.jig'' @ to_string pid @ ''.'' @ path_filename path"
  have "slash \<notin> set (to_string pid)" using to_base_digits [of 10 slash pid] by auto
  then have "path_filename (WriteFile_tmp pid path) = ?n"
    unfolding WriteFile_tmp_def by (intro path_filename_append) simp
  then have "length (path_filename (WriteFile_tmp pid path)) > length (path_filename path)"
    by simp
  then show ?thesis by force
qed

text \<open>C27: \<open>WriteFile\<close> replaces the target in one step: in every intermediate state a reader sees the
  old content or the whole new one, the result says which of the two is there at the end, and no other
  file than the temporary one changes.\<close>

theorem WriteFile_atomic:
  assumes "WriteFile plan pid files path data = (ok, states)"
  shows "list_all (\<lambda>s. s path = files path \<or> s path = Some data) states \<and>
    last states path = (if ok then Some data else files path) \<and>
    list_all (\<lambda>s. \<forall>q. q = path \<or> q = WriteFile_tmp pid path \<or> s q = files q) states"
  using assms unfolding WriteFile_def Let_def
  by (auto split: if_splits option.splits simp: WriteFile_tmp_neq [symmetric])

theorem WriteFile_atomic_witness:
  "list_all (\<lambda>s. s ''a/x'' = Some ''old'' \<or> s ''a/x'' = Some ''new!'')
     (snd (WriteFile \<lparr>wp_open = True, wp_full = Some 2, wp_rename = True\<rparr> 7 [''a/x'' \<mapsto> ''old''] ''a/x'' ''new!''))"
  using WriteFile_atomic [of "\<lparr>wp_open = True, wp_full = Some 2, wp_rename = True\<rparr>" 7
      "[''a/x'' \<mapsto> ''old'']" "''a/x''" "''new!''", OF prod.collapse [symmetric]]
  by simp

section \<open>Environment and PATH\<close>

definition Env :: "env \<Rightarrow> string \<Rightarrow> string \<Rightarrow> string" where
  "Env env name fallback = (case env name of Some value \<Rightarrow> value | None \<Rightarrow> fallback)"

fun OnPath_search :: "(string \<Rightarrow> bool) \<Rightarrow> string \<Rightarrow> string list \<Rightarrow> string" where
  "OnPath_search exists name [] = name"
| "OnPath_search exists name (dir # dirs) =
     (if exists (path_append dir name) then path_append dir name else OnPath_search exists name dirs)"

definition OnPath :: "(string \<Rightarrow> bool) \<Rightarrow> env \<Rightarrow> string \<Rightarrow> string" where
  "OnPath exists env name =
     (if \<not> contains name ''/'' then OnPath_search exists name (Split (Env env ''PATH'' []) CHR '':'' False)
      else name)"

lemma OnPath_result:
  "OnPath exists env name = name \<or>
   exists (OnPath exists env name) \<and> path_filename (OnPath exists env name) = name"
proof -
  have "slash \<notin> set name \<Longrightarrow> OnPath_search exists name dirs = name \<or>
      exists (OnPath_search exists name dirs) \<and> path_filename (OnPath_search exists name dirs) = name" for dirs
    by (induction dirs) (auto simp: path_filename_append)
  moreover have "\<not> contains name ''/'' \<Longrightarrow> slash \<notin> set name"
    by (auto simp: in_set_conv_decomp sublist_def)
  ultimately show ?thesis by (simp add: OnPath_def)
qed

end
