(* ===== verification/Cache_Client.thy ===== *)
theory Cache_Client
  imports Files "HOL-Library.Word"
begin

text \<open>
  \<open>cache_client.cc\<close>: the client of the cache daemon.  The connection is explicit state: the bytes read
  but not consumed, the chunks the kernel will still deliver (an empty one is end of file or an error),
  how much each \<open>send(2)\<close> accepts, and the bytes sent so far.  The zstd library is a parameter.  The
  lemmas relate the buffered reads to the byte stream they come from, so that a reply is read the same
  way however the kernel cuts it.
\<close>

record client =
  cl_open :: bool
  cl_pending :: string
  cl_chunks :: "string list"
  cl_accepts :: "nat list"
  cl_sent :: string

definition kMaxObjectSize :: nat where
  "kMaxObjectSize = 2 * 2 ^ 30"

definition sun_path_size :: nat where
  "sun_path_size = 108"

section \<open>The socket\<close>

text \<open>\<open>connect\<close> gives the new connection, or none where the socket is absent or refuses.\<close>

definition Connect :: "(string \<Rightarrow> client option) \<Rightarrow> client \<Rightarrow> string \<Rightarrow> bool \<times> client" where
  "Connect connect c socket_path =
     (if length socket_path \<ge> sun_path_size then (False, c)
      else case connect socket_path of
        None \<Rightarrow> (False, c)
      | Some sock \<Rightarrow> (True, c\<lparr>cl_open := True, cl_chunks := cl_chunks sock, cl_accepts := cl_accepts sock,
                           cl_sent := []\<rparr>))"

fun SendAll_loop :: "string \<Rightarrow> nat list \<Rightarrow> string \<Rightarrow> bool \<times> nat list \<times> string" where
  "SendAll_loop [] accepts sent = (True, accepts, sent)"
| "SendAll_loop (d # ds) [] sent = (False, [], sent)"
| "SendAll_loop (d # ds) (a # accepts) sent =
     (if a = 0 then (False, accepts, sent)
      else SendAll_loop (drop a (d # ds)) accepts (sent @ take a (d # ds)))"

definition SendAll :: "client \<Rightarrow> string \<Rightarrow> bool \<times> client" where
  "SendAll c data =
     (case SendAll_loop data (cl_accepts c) (cl_sent c) of
        (ok, accepts, sent) \<Rightarrow> (ok, c\<lparr>cl_accepts := accepts, cl_sent := sent\<rparr>))"

definition Fill :: "client \<Rightarrow> bool \<times> client" where
  "Fill c =
     (if \<not> cl_open c then (False, c)
      else case cl_chunks c of
        [] \<Rightarrow> (False, c)
      | x # xs \<Rightarrow>
          if x = [] then (False, c)
          else (True, c\<lparr>cl_pending := x, cl_chunks := xs\<rparr>))"

function RecvLine_loop :: "client \<Rightarrow> string \<Rightarrow> string option \<times> client" where
  "RecvLine_loop c line =
     (case find_str [CHR 0x0A] (cl_pending c) of
        Some newline \<Rightarrow>
          (Some (line @ take newline (cl_pending c)), c\<lparr>cl_pending := drop (newline + 1) (cl_pending c)\<rparr>)
      | None \<Rightarrow>
          (case Fill c of
             (False, c') \<Rightarrow> (None, c')
           | (True, c') \<Rightarrow> RecvLine_loop c' (line @ cl_pending c)))"
  by pat_completeness auto
termination
  by (relation "measure (\<lambda>(c, _). length (cl_chunks c))")
    (auto simp: Fill_def split: if_splits list.splits)

declare RecvLine_loop.simps [simp del]

definition RecvLine :: "client \<Rightarrow> string option \<times> client" where
  "RecvLine c = RecvLine_loop c []"

definition Fill_if_empty :: "client \<Rightarrow> bool \<times> client" where
  "Fill_if_empty c = (if cl_pending c = [] then Fill c else (True, c))"

function RecvExactly_loop :: "client \<Rightarrow> nat \<Rightarrow> string \<Rightarrow> string option \<times> client" where
  "RecvExactly_loop c remaining out =
     (if remaining = 0 then (Some out, c)
      else case Fill_if_empty c of
        (False, c') \<Rightarrow> (None, c')
      | (True, c') \<Rightarrow>
          let n = min (length (cl_pending c')) remaining in
          RecvExactly_loop (c'\<lparr>cl_pending := drop n (cl_pending c')\<rparr>) (remaining - n) (out @ take n (cl_pending c')))"
  by pat_completeness auto
termination
  by (relation "measure (\<lambda>(_, remaining, _). remaining)")
    (auto simp: Fill_if_empty_def Fill_def split: if_splits list.splits)

declare RecvExactly_loop.simps [simp del]

definition RecvExactly :: "client \<Rightarrow> nat \<Rightarrow> string option \<times> client" where
  "RecvExactly c count = RecvExactly_loop c count []"

section \<open>Values on the wire\<close>

definition kHeader :: nat where
  "kHeader = 4"

text \<open>A 32-bit number in host order, least significant byte first.\<close>

definition le32_bytes :: "32 word \<Rightarrow> string" where
  "le32_bytes w = map (\<lambda>i. char_of (unat (drop_bit (8 * i) w) mod 256)) [0, 1, 2, 3]"

definition le32_word :: "string \<Rightarrow> 32 word" where
  "le32_word bs = word_of_nat (horner_sum of_char 256 bs)"

record zstd =
  z_compress :: "string \<Rightarrow> string option"
  z_decompress :: "nat \<Rightarrow> string \<Rightarrow> string option"

definition Compress :: "zstd \<Rightarrow> string \<Rightarrow> string" where
  "Compress z value =
     (case z_compress z value of
        None \<Rightarrow> []
      | Some block \<Rightarrow> le32_bytes (word_of_nat (length value)) @ block)"

definition Decompress :: "zstd \<Rightarrow> string \<Rightarrow> string option" where
  "Decompress z wire =
     (if length wire < kHeader then None
      else let capacity = unat (le32_word (take kHeader wire)) in
        case z_decompress z capacity (drop kHeader wire) of
          None \<Rightarrow> None
        | Some out \<Rightarrow> if length out = capacity then Some out else None)"

section \<open>Requests\<close>

definition RecvValue :: "zstd \<Rightarrow> client \<Rightarrow> string option \<times> client" where
  "RecvValue z c =
     (case RecvLine c of
        (None, c) \<Rightarrow> (None, c)
      | (Some line, c) \<Rightarrow>
          if \<not> starts_with line ''OK '' then (None, c)
          else case ParseUint (drop 3 line) 10 of
            None \<Rightarrow> (None, c\<lparr>cl_open := False\<rparr>)
          | Some len \<Rightarrow>
              if len > kMaxObjectSize then (None, c\<lparr>cl_open := False\<rparr>)
              else case RecvExactly c len of
                (None, c) \<Rightarrow> (None, c)
              | (Some wire, c) \<Rightarrow> (Decompress z wire, c))"

definition get_request :: "string \<Rightarrow> string" where
  "get_request key = ''GET '' @ key @ [CHR 0x0A]"

definition Get :: "zstd \<Rightarrow> client \<Rightarrow> string \<Rightarrow> string option \<times> client" where
  "Get z c key =
     (if \<not> cl_open c then (None, c)
      else case SendAll c (get_request key) of
        (False, c) \<Rightarrow> (None, c)
      | (True, c) \<Rightarrow> RecvValue z c)"

fun RecvMany :: "(client \<Rightarrow> 'a \<times> client) \<Rightarrow> nat \<Rightarrow> client \<Rightarrow> 'a list \<times> client" where
  "RecvMany recv 0 c = ([], c)"
| "RecvMany recv (Suc n) c =
     (case recv c of (v, c) \<Rightarrow> case RecvMany recv n c of (vs, c) \<Rightarrow> (v # vs, c))"

definition GetMany :: "zstd \<Rightarrow> client \<Rightarrow> string list \<Rightarrow> string option list \<times> client" where
  "GetMany z c keys =
     (if \<not> cl_open c \<or> keys = [] then (replicate (length keys) None, c)
      else case SendAll c (concat (map get_request keys)) of
        (False, c) \<Rightarrow> (replicate (length keys) None, c)
      | (True, c) \<Rightarrow> RecvMany (RecvValue z) (length keys) c)"

fun RecvIds :: "nat \<Rightarrow> client \<Rightarrow> string list option \<times> client" where
  "RecvIds 0 c = (Some [], c)"
| "RecvIds (Suc n) c =
     (case RecvLine c of
        (None, c) \<Rightarrow> (None, c)
      | (Some line, c) \<Rightarrow>
          (case RecvIds n c of (None, c) \<Rightarrow> (None, c) | (Some ids, c) \<Rightarrow> (Some (line # ids), c)))"

definition Identities :: "client \<Rightarrow> string list \<Rightarrow> string list \<times> client" where
  "Identities c paths =
     (if \<not> cl_open c \<or> paths = [] then ([], c)
      else case SendAll c (''IDS '' @ to_string (length paths) @ [CHR 0x0A] @ concat (map (\<lambda>p. p @ [CHR 0x0A]) paths)) of
        (False, c) \<Rightarrow> ([], c)
      | (True, c) \<Rightarrow> (case RecvIds (length paths) c of (None, c) \<Rightarrow> ([], c) | (Some ids, c) \<Rightarrow> (ids, c)))"

definition AcquireSlot :: "client \<Rightarrow> string \<Rightarrow> bool \<times> client" where
  "AcquireSlot c build =
     (if \<not> cl_open c then (False, c)
      else case SendAll c (''SLOT '' @ build @ [CHR 0x0A]) of
        (False, c) \<Rightarrow> (False, c)
      | (True, c) \<Rightarrow> (case RecvLine c of (line, c) \<Rightarrow> (line = Some ''OK'', c)))"

definition ReleaseSlot :: "client \<Rightarrow> string \<Rightarrow> client" where
  "ReleaseSlot c build =
     (if \<not> cl_open c then c
      else case SendAll c (''DONE '' @ build @ [CHR 0x0A]) of
        (False, c) \<Rightarrow> c
      | (True, c) \<Rightarrow> snd (RecvLine c))"

definition put_header :: "string \<Rightarrow> string \<Rightarrow> string" where
  "put_header key wire = ''PUT '' @ key @ '' '' @ to_string (length wire) @ [CHR 0x0A]"

text \<open>One value sent: false where it was not compressed or the socket gave up.\<close>

definition SendValue :: "zstd \<Rightarrow> client \<Rightarrow> string \<times> string \<Rightarrow> bool \<times> client" where
  "SendValue z c = (\<lambda>(key, value).
     let wire = Compress z value in
     if wire = [] then (False, c)
     else case SendAll c (put_header key wire) of
       (False, c) \<Rightarrow> (False, c)
     | (True, c) \<Rightarrow> SendAll c wire)"

definition Put :: "zstd \<Rightarrow> client \<Rightarrow> string \<Rightarrow> string \<Rightarrow> client" where
  "Put z c key value =
     (if \<not> cl_open c then c
      else case SendValue z c (key, value) of (False, c) \<Rightarrow> c | (True, c) \<Rightarrow> snd (RecvLine c))"

fun SendValues :: "zstd \<Rightarrow> client \<Rightarrow> (string \<times> string) list \<Rightarrow> nat \<times> client" where
  "SendValues z c [] = (0, c)"
| "SendValues z c (item # items) =
     (case SendValue z c item of
        (False, c) \<Rightarrow> (0, c)
      | (True, c) \<Rightarrow> (case SendValues z c items of (n, c) \<Rightarrow> (Suc n, c)))"

definition PutMany :: "zstd \<Rightarrow> client \<Rightarrow> (string \<times> string) list \<Rightarrow> client" where
  "PutMany z c items =
     (if \<not> cl_open c \<or> items = [] then c
      else case SendValues z c items of (sent, c) \<Rightarrow> snd (RecvMany RecvLine sent c))"

definition HasMany :: "client \<Rightarrow> string list \<Rightarrow> bool list \<times> client" where
  "HasMany c keys =
     (if \<not> cl_open c \<or> keys = [] then (replicate (length keys) False, c)
      else case SendAll c (concat (map (\<lambda>key. ''HAS '' @ key @ [CHR 0x0A]) keys)) of
        (False, c) \<Rightarrow> (replicate (length keys) False, c)
      | (True, c) \<Rightarrow> (case RecvMany RecvLine (length keys) c of (ls, c) \<Rightarrow> (map (\<lambda>l. l = Some ''1'') ls, c)))"

section \<open>The byte stream behind the buffer\<close>

definition incoming :: "client \<Rightarrow> string" where
  "incoming c = cl_pending c @ (if cl_open c then concat (takeWhile (\<lambda>x. x \<noteq> []) (cl_chunks c)) else [])"

definition same_socket :: "client \<Rightarrow> client \<Rightarrow> bool" where
  "same_socket c d \<longleftrightarrow> cl_open d = cl_open c \<and> cl_sent d = cl_sent c \<and> cl_accepts d = cl_accepts c"

lemma same_socket_refl [simp]: "same_socket c c"
  by (simp add: same_socket_def)

lemma same_socket_trans: "same_socket c d \<Longrightarrow> same_socket d e \<Longrightarrow> same_socket c e"
  by (simp add: same_socket_def)

lemma same_socket_pending [simp]: "same_socket c (c\<lparr>cl_pending := p\<rparr>)"
  by (simp add: same_socket_def)

lemma Fill_False:
  "Fill c = (False, d) \<Longrightarrow> d = c \<and> incoming c = cl_pending c"
  by (auto simp: Fill_def incoming_def split: if_splits list.splits)

lemma Fill_True:
  "Fill c = (True, d) \<Longrightarrow> incoming c = cl_pending c @ incoming d \<and> same_socket c d \<and> cl_pending d \<noteq> []"
  by (auto simp: Fill_def incoming_def same_socket_def split: if_splits list.splits)

lemma incoming_drop:
  "n \<le> length (cl_pending c) \<Longrightarrow> incoming (c\<lparr>cl_pending := drop n (cl_pending c)\<rparr>) = drop n (incoming c)"
  by (simp add: incoming_def)

lemma append_eq_sep: "p @ x = l @ s # rest \<Longrightarrow> s \<notin> set p \<Longrightarrow> \<exists>l'. l = p @ l' \<and> x = l' @ s # rest"
  by (induction p arbitrary: l) (auto simp: Cons_eq_append_conv)

lemma RecvLine_loop_line:
  assumes "incoming c = l @ CHR 0x0A # rest" "CHR 0x0A \<notin> set l"
  shows "\<exists>d. RecvLine_loop c line = (Some (line @ l), d) \<and> incoming d = rest \<and> same_socket c d"
  using assms
proof (induction c line arbitrary: l rule: RecvLine_loop.induct)
  case (1 c line)
  let ?p = "cl_pending c"
  show ?case
  proof (cases "CHR 0x0A \<in> set ?p")
    case True
    then obtain a b where p: "?p = a @ CHR 0x0A # b" "CHR 0x0A \<notin> set a" by (metis split_list_first)
    have "incoming c = a @ CHR 0x0A # (b @ drop (length ?p) (incoming c))"
      by (simp add: incoming_def p(1))
    with 1(2,3) p(2) have "l = a" "rest = b @ drop (length ?p) (incoming c)"
      by (metis field_takeWhile(3), metis field_takeWhile(4) list.inject)
    then show ?thesis
      using p by (subst RecvLine_loop.simps) (simp add: find_str_char incoming_def same_socket_def)
  next
    case False
    then have none: "find_str [CHR 0x0A] ?p = None" by (simp add: find_char)
    obtain ok d where fill: "Fill c = (ok, d)" by fastforce
    show ?thesis
    proof (cases ok)
      case no: False
      then have "incoming c = ?p" using Fill_False fill by simp
      with 1(2) False show ?thesis by simp
    next
      case True
      then have inc: "incoming c = ?p @ incoming d" "same_socket c d" using Fill_True fill by auto
      then obtain l' where l': "l = ?p @ l'" "incoming d = l' @ CHR 0x0A # rest"
        using append_eq_sep [of ?p "incoming d" l "CHR 0x0A" rest] 1(2) False by auto
      obtain e where "RecvLine_loop d (line @ ?p) = (Some ((line @ ?p) @ l'), e)"
        "incoming e = rest" "same_socket d e"
        using 1(1) [OF none fill [symmetric] _ l'(2)] True 1(3) l'(1) by auto
      then show ?thesis
        using none fill True l' inc same_socket_trans by (subst RecvLine_loop.simps) auto
    qed
  qed
qed

lemma RecvLine_line:
  assumes "incoming c = l @ CHR 0x0A # rest" "CHR 0x0A \<notin> set l"
  obtains d where "RecvLine c = (Some l, d)" "incoming d = rest" "same_socket c d"
  using RecvLine_loop_line [OF assms, of "[]"] by (auto simp: RecvLine_def)

lemma Fill_if_empty_stream:
  assumes "Fill_if_empty c = (ok, d)" "incoming c \<noteq> []"
  shows "ok \<and> incoming d = incoming c \<and> same_socket c d \<and> cl_pending d \<noteq> []"
  using assms Fill_True [of c d] Fill_False [of c d]
  by (cases ok) (auto simp: Fill_if_empty_def split: if_splits)

lemma incoming_prefix: "\<exists>r. incoming c = cl_pending c @ r"
  by (auto simp: incoming_def)

lemma RecvExactly_loop_bytes:
  assumes "incoming c = w @ rest" "length w = remaining"
  shows "\<exists>d. RecvExactly_loop c remaining out = (Some (out @ w), d) \<and> incoming d = rest \<and> same_socket c d"
  using assms
proof (induction c remaining out arbitrary: w rule: RecvExactly_loop.induct)
  case (1 c remaining out)
  show ?case
  proof (cases "remaining = 0")
    case True
    then show ?thesis using 1 by (subst RecvExactly_loop.simps) simp
  next
    case False
    obtain ok d where fill: "Fill_if_empty c = (ok, d)" by fastforce
    then have d: "ok" "incoming d = w @ rest" "same_socket c d" "cl_pending d \<noteq> []"
      using Fill_if_empty_stream [OF fill] 1(2,3) False by auto
    define n where "n = min (length (cl_pending d)) remaining"
    define e where "e = d\<lparr>cl_pending := drop n (cl_pending d)\<rparr>"
    obtain r where r: "incoming d = cl_pending d @ r" using incoming_prefix by blast
    have n: "n \<le> length w" "n \<le> length (cl_pending d)" using 1(3) by (auto simp: n_def)
    have "take n (cl_pending d) = take n (incoming d)" using n r by simp
    then have taken: "take n (cl_pending d) = take n w" using d(2) n by simp
    have e: "incoming e = drop n w @ rest" "same_socket c e"
      using d(2,3) n incoming_drop [of n d] by (simp_all add: e_def same_socket_def)
    have "\<exists>f. RecvExactly_loop e (remaining - n) (out @ take n (cl_pending d)) =
        (Some ((out @ take n (cl_pending d)) @ drop n w), f) \<and> incoming f = rest \<and> same_socket e f"
      using 1(1) [OF False fill [symmetric] _ n_def, of "drop n w"] d(1) e(1) 1(3) unfolding e_def by simp
    then obtain f where "RecvExactly_loop e (remaining - n) (out @ take n (cl_pending d)) = (Some (out @ w), f)"
      "incoming f = rest" "same_socket e f"
      using taken by auto
    then show ?thesis
      using False fill d(1) e(2) same_socket_trans
      by (subst RecvExactly_loop.simps) (auto simp: Let_def n_def [symmetric] e_def [symmetric])
  qed
qed

lemma RecvExactly_bytes:
  assumes "incoming c = w @ rest"
  obtains d where "RecvExactly c (length w) = (Some w, d)" "incoming d = rest" "same_socket c d"
  using RecvExactly_loop_bytes [OF assms refl, of "[]"] by (auto simp: RecvExactly_def)

section \<open>Sending\<close>

lemma SendAll_loop_sent:
  "SendAll_loop data accepts sent = (ok, accepts', sent') \<Longrightarrow>
   (ok \<longrightarrow> sent' = sent @ data) \<and> (\<exists>pre. prefix pre data \<and> sent' = sent @ pre)"
proof (induction data accepts sent rule: SendAll_loop.induct)
  case (3 d ds a accepts sent)
  show ?case
  proof (cases "a = 0")
    case False
    then have IH: "(ok \<longrightarrow> sent' = (sent @ take a (d # ds)) @ drop a (d # ds)) \<and>
        (\<exists>pre. prefix pre (drop a (d # ds)) \<and> sent' = (sent @ take a (d # ds)) @ pre)"
      using 3 by simp
    then obtain pre where "prefix pre (drop a (d # ds))" "sent' = sent @ take a (d # ds) @ pre" by auto
    moreover from this have "prefix (take a (d # ds) @ pre) (d # ds)"
      by (metis append_take_drop_id same_prefix_prefix)
    ultimately show ?thesis using IH by (metis append.assoc append_take_drop_id)
  qed (use 3 in auto)
qed auto

lemma SendAll_True:
  "SendAll c data = (True, d) \<Longrightarrow> cl_sent d = cl_sent c @ data \<and> incoming d = incoming c \<and> cl_open d = cl_open c"
  using SendAll_loop_sent [of data "cl_accepts c" "cl_sent c"]
  by (auto simp: SendAll_def incoming_def split: prod.splits)

section \<open>Values survive the wire\<close>

lemma length_le32_bytes [simp]: "length (le32_bytes w) = 4"
  by (simp add: le32_bytes_def)

lemma le32_split:
  fixes n :: nat
  assumes "n < 2 ^ 32"
  shows "n mod 256 + 256 * (n div 256 mod 256 + 256 * (n div 65536 mod 256 + 256 * (n div 16777216 mod 256))) = n"
proof -
  have "n div 65536 = n div 256 div 256" "n div 16777216 = n div 256 div 256 div 256"
    by (simp_all add: div_mult2_eq [symmetric])
  moreover have "n div 256 div 256 div 256 < 256" using assms by (simp add: div_mult2_eq [symmetric])
  ultimately show ?thesis by simp
qed

lemma le32_roundtrip [simp]: "le32_word (le32_bytes w) = w"
proof -
  have "horner_sum of_char 256 (le32_bytes w) = unat w"
    using le32_split [of "unat w"] unsigned_less [of w, where ?'a = nat]
    by (simp add: le32_bytes_def drop_bit_eq_div unat_div of_char_of)
  then show ?thesis by (simp add: le32_word_def)
qed

text \<open>What the program relies on in the compression library.\<close>

definition zstd_ok :: "zstd \<Rightarrow> bool" where
  "zstd_ok z \<longleftrightarrow> (\<forall>v w. z_compress z v = Some w \<longrightarrow> z_decompress z (length v) w = Some v)"

lemma Decompress_Compress:
  assumes "zstd_ok z" "z_compress z v = Some w" "length v < 2 ^ 32"
  shows "Decompress z (Compress z v) = Some v"
proof -
  have "unat (word_of_nat (length v) :: 32 word) = length v"
    using assms(3) by (simp add: unat_of_nat)
  then show ?thesis
    using assms(1,2) by (simp add: Decompress_def Compress_def kHeader_def zstd_ok_def Let_def)
qed

section \<open>Replies\<close>

text \<open>A reply as the daemon writes it: the value with its length, or a miss.\<close>

definition value_reply :: "string option \<Rightarrow> string" where
  "value_reply w =
     (case w of
        Some wire \<Rightarrow> ''OK '' @ to_string (length wire) @ [CHR 0x0A] @ wire
      | None \<Rightarrow> ''MISS'' @ [CHR 0x0A])"

definition reply_fits :: "string option \<Rightarrow> bool" where
  "reply_fits w = (case w of Some wire \<Rightarrow> length wire \<le> kMaxObjectSize | None \<Rightarrow> True)"

lemma newline_not_digit [simp]: "CHR 0x0A \<notin> set (to_string n)"
  using to_base_digits [of 10 "CHR 0x0A" n] by auto

lemma ParseUint_to_string: "n < 2 ^ 64 \<Longrightarrow> ParseUint (to_string n) 10 = Some n"
  by (simp add: ParseUint_digits)

lemma RecvValue_reply:
  assumes "incoming c = value_reply w @ rest" "reply_fits w"
  obtains d where "RecvValue z c = (Option.bind w (Decompress z), d)" "incoming d = rest" "same_socket c d"
proof (cases w)
  case None
  then have "incoming c = ''MISS'' @ CHR 0x0A # rest" using assms(1) by (simp add: value_reply_def)
  then obtain d where "RecvLine c = (Some ''MISS'', d)" "incoming d = rest" "same_socket c d"
    by (rule RecvLine_line) simp
  then show ?thesis using that [of d] None by (simp add: RecvValue_def)
next
  case (Some wire)
  let ?line = "''OK '' @ to_string (length wire)"
  have len: "length wire \<le> kMaxObjectSize" using assms(2) Some by (simp add: reply_fits_def)
  then have parse: "ParseUint (drop 3 ?line) 10 = Some (length wire)"
    using ParseUint_to_string [of "length wire"] by (simp add: kMaxObjectSize_def)
  have "incoming c = ?line @ CHR 0x0A # (wire @ rest)"
    using assms(1) Some by (simp add: value_reply_def)
  then obtain d where d: "RecvLine c = (Some ?line, d)" "incoming d = wire @ rest" "same_socket c d"
    by (rule RecvLine_line) simp
  from d(2) obtain e where "RecvExactly d (length wire) = (Some wire, e)" "incoming e = rest" "same_socket d e"
    by (rule RecvExactly_bytes)
  then show ?thesis
    using that [of e] d(1,3) parse len Some same_socket_trans by (simp add: RecvValue_def)
qed

end
