(* ===== verification/Daemon.thy ===== *)
theory Daemon
  imports Cache_Client
begin

text \<open>
  The request loop of the cache daemon (\<open>jigd/src/main.go\<close>), from the bytes of a connection to the
  bytes of the reply.  The blob store behind it is the map from keys to values it promises to be; the
  identity of a store file is a parameter; taking and returning compiler slots is recorded as events.
  Together with the client this gives the contract the compile cache rests on: what one client puts,
  every later client gets, whatever way the kernel cuts the streams.
\<close>

section \<open>Lines and fields\<close>

definition kLineBuffer :: nat where
  "kLineBuffer = 65536"

definition readLine :: "string \<Rightarrow> (string \<times> string) option" where
  "readLine input =
     (let line = takeWhile (\<lambda>c. c \<noteq> CHR 0x0A) input in
      if CHR 0x0A \<in> set input \<and> length line < kLineBuffer then Some (line, drop (length line + 1) input) else None)"

function Fields :: "string \<Rightarrow> string list" where
  "Fields s =
     (if s = [] then []
      else let rest = dropWhile isspace s;
               word = takeWhile (\<lambda>c. \<not> isspace c) rest;
               after = dropWhile (\<lambda>c. \<not> isspace c) rest
           in (if word \<noteq> [] then [word] else []) @ Fields after)"
  by pat_completeness auto
termination
proof (relation "measure length", goal_cases)
  case (2 s rest word after)
  then show ?case
    by (cases s) (auto intro!: le_imp_less_Suc order_trans [OF length_dropWhile_le] length_dropWhile_le)
qed simp

declare Fields.simps [simp del]

text \<open>\<open>strconv.ParseInt\<close> in base ten: a sign, digits, and the range of a 64-bit integer.\<close>

definition ParseInt :: "string \<Rightarrow> int option" where
  "ParseInt s =
     (let neg = starts_with s ''-'';
          body = (if neg \<or> starts_with s ''+'' then drop 1 s else s)
      in if body = [] then None
         else case digits_value 10 body 0 of
           None \<Rightarrow> None
         | Some v \<Rightarrow>
             if neg then (if v \<le> 2 ^ 63 then Some (- int v) else None)
             else (if v < 2 ^ 63 then Some (int v) else None))"

section \<open>The daemon\<close>

datatype slot_event = Acquired string | Released string

record daemon =
  d_index :: "string \<Rightarrow> string option"
  d_ident :: "string \<Rightarrow> string"
  d_held :: "string \<Rightarrow> nat"
  d_events :: "slot_event list"
  d_gets :: nat
  d_hits :: nat
  d_puts :: nat
  d_stats :: string

definition key_ok :: "string \<Rightarrow> bool" where
  "key_ok key \<longleftrightarrow> 0 < length key \<and> length key \<le> 4096 \<and> CHR 0x0A \<notin> set key \<and> CHR '' '' \<notin> set key"

definition store_Put :: "daemon \<Rightarrow> string \<Rightarrow> int \<Rightarrow> string \<Rightarrow> (daemon \<times> string) option" where
  "store_Put d key sz input =
     (if \<not> key_ok key \<or> sz < 0 \<or> sz > 2 * 2 ^ 30 then None
      else if length input < nat sz then None
      else Some (d\<lparr>d_index := (d_index d)(key \<mapsto> take (nat sz) input)\<rparr>, drop (nat sz) input))"

definition serve_get :: "daemon \<Rightarrow> string \<Rightarrow> daemon \<times> string" where
  "serve_get d key =
     (let d = d\<lparr>d_gets := d_gets d + 1\<rparr> in
      case d_index d key of
        None \<Rightarrow> (d, ''MISS'' @ [CHR 0x0A])
      | Some v \<Rightarrow> (d\<lparr>d_hits := d_hits d + 1\<rparr>, ''OK '' @ to_string (length v) @ [CHR 0x0A] @ v))"

definition serve_put :: "daemon \<Rightarrow> string \<Rightarrow> int \<Rightarrow> string \<Rightarrow> (daemon \<times> string \<times> string) option" where
  "serve_put d key sz input =
     (case store_Put (d\<lparr>d_puts := d_puts d + 1\<rparr>) key sz input of
        None \<Rightarrow> None
      | Some (d, rest) \<Rightarrow> Some (d, ''OK'' @ [CHR 0x0A], rest))"

fun serve_ids :: "daemon \<Rightarrow> nat \<Rightarrow> string \<Rightarrow> (string \<times> string) option" where
  "serve_ids d 0 input = Some ([], input)"
| "serve_ids d (Suc n) input =
     (case readLine input of
        None \<Rightarrow> None
      | Some (path, rest) \<Rightarrow>
          (case serve_ids d n rest of
             None \<Rightarrow> None
           | Some (out, rest) \<Rightarrow> Some (d_ident d path @ [CHR 0x0A] @ out, rest)))"

text \<open>One turn of the loop: the new state, the reply and the unread input; \<open>None\<close> closes the
  connection.\<close>

definition serve_request :: "daemon \<Rightarrow> string list \<Rightarrow> string \<Rightarrow> (daemon \<times> string \<times> string) option" where
  "serve_request d words rest =
     (case words of
        [verb, arg] \<Rightarrow>
          if verb = ''GET'' then (case serve_get d arg of (d, out) \<Rightarrow> Some (d, out, rest))
          else if verb = ''HAS'' then
            Some (d, (if d_index d arg \<noteq> None then ''1'' else ''0'') @ [CHR 0x0A], rest)
          else if verb = ''IDS'' then
            (case ParseInt arg of
               None \<Rightarrow> None
             | Some n \<Rightarrow>
                 if n < 0 \<or> n > 2 ^ 20 then None
                 else map_option (\<lambda>(out, rest). (d, out, rest)) (serve_ids d (nat n) rest))
          else if verb = ''SLOT'' then
            Some (d\<lparr>d_held := (d_held d)(arg := d_held d arg + 1), d_events := d_events d @ [Acquired arg]\<rparr>,
              ''OK'' @ [CHR 0x0A], rest)
          else if verb = ''DONE'' then
            Some (if d_held d arg > 0
                  then d\<lparr>d_held := (d_held d)(arg := d_held d arg - 1), d_events := d_events d @ [Released arg]\<rparr>
                  else d, ''OK'' @ [CHR 0x0A], rest)
          else None
      | [verb, key, sz] \<Rightarrow>
          if verb = ''PUT'' then (case ParseInt sz of None \<Rightarrow> None | Some n \<Rightarrow> serve_put d key n rest)
          else None
      | [verb] \<Rightarrow> if verb = ''STATS'' then Some (d, d_stats d @ [CHR 0x0A], rest) else None
      | _ \<Rightarrow> None)"

definition serve_turn :: "daemon \<Rightarrow> string \<Rightarrow> (daemon \<times> string \<times> string) option" where
  "serve_turn d input =
     (case readLine input of None \<Rightarrow> None | Some (line, rest) \<Rightarrow> serve_request d (Fields line) rest)"

lemma readLine_shorter: "readLine input = Some (line, rest) \<Longrightarrow> length rest < length input"
  by (cases input) (auto simp: readLine_def Let_def split: if_splits)

lemma serve_ids_shorter: "serve_ids d n input = Some (out, rest) \<Longrightarrow> length rest \<le> length input"
  by (induction d n input arbitrary: out rest rule: serve_ids.induct)
    (fastforce split: option.splits dest: readLine_shorter)+

lemma serve_request_shorter:
  "serve_request d words input = Some (e, out, rest) \<Longrightarrow> length rest \<le> length input"
  by (auto simp: serve_request_def serve_put_def store_Put_def split: list.splits if_splits option.splits prod.splits
      dest: serve_ids_shorter)

lemma serve_turn_shorter: "serve_turn d input = Some (e, out, rest) \<Longrightarrow> length rest < length input"
  by (auto simp: serve_turn_def split: option.splits
      dest!: readLine_shorter serve_request_shorter)

text \<open>The loop until the input ends or the connection is closed: the state, the replies, and the unread
  rest.\<close>

function serve_loop :: "daemon \<Rightarrow> string \<Rightarrow> daemon \<times> string \<times> string" where
  "serve_loop d input =
     (case serve_turn d input of
        None \<Rightarrow> (d, [], input)
      | Some (e, out, rest) \<Rightarrow> (case serve_loop e rest of (f, outs, left) \<Rightarrow> (f, out @ outs, left)))"
  by pat_completeness auto
termination
  by (relation "measure (\<lambda>(_, input). length input)") (auto dest: serve_turn_shorter)

declare serve_loop.simps [simp del]

text \<open>Hanging up returns every slot the connection still holds; \<open>builds\<close> lists the keys of the map.\<close>

definition serve_hangup :: "daemon \<Rightarrow> string list \<Rightarrow> daemon" where
  "serve_hangup d builds =
     d\<lparr>d_held := (\<lambda>_. 0),
       d_events := d_events d @ concat (map (\<lambda>b. replicate (d_held d b) (Released b)) builds)\<rparr>"

section \<open>Requests as the client writes them\<close>

lemma Fields_Nil [simp]: "Fields [] = []"
  by (simp add: Fields.simps)

lemma Fields_word: "w \<noteq> [] \<Longrightarrow> list_all (\<lambda>c. \<not> isspace c) w \<Longrightarrow> Fields w = [w]"
proof -
  assume w: "w \<noteq> []" "list_all (\<lambda>c. \<not> isspace c) w"
  then have "dropWhile isspace w = w" "takeWhile (\<lambda>c. \<not> isspace c) w = w" "dropWhile (\<lambda>c. \<not> isspace c) w = []"
    by (cases w; auto simp: list_all_iff)+
  note * = this
  show ?thesis by (subst Fields.simps) (simp only: Let_def *, simp add: w)
qed

lemma Fields_sep:
  assumes "w \<noteq> []" "list_all (\<lambda>c. \<not> isspace c) w" "isspace c"
  shows "Fields (w @ c # s) = w # Fields s"
proof -
  have *: "dropWhile isspace (w @ c # s) = w @ c # s" "takeWhile (\<lambda>c. \<not> isspace c) (w @ c # s) = w"
    "dropWhile (\<lambda>c. \<not> isspace c) (w @ c # s) = c # s"
    using assms by (cases w; auto simp: list_all_iff takeWhile_append dropWhile_append)+
  have "Fields (c # s) = Fields s"
    using assms(3) by (subst (1 2) Fields.simps) (simp add: Let_def)
  with * assms(1) show ?thesis by (subst Fields.simps) (simp add: Let_def)
qed

definition key_wire_ok :: "string \<Rightarrow> bool" where
  "key_wire_ok key \<longleftrightarrow> key \<noteq> [] \<and> length key \<le> 4096 \<and> list_all (\<lambda>c. \<not> isspace c) key"

lemma key_wire_ok_key_ok: "key_wire_ok key \<Longrightarrow> key_ok key"
  by (auto simp: key_wire_ok_def key_ok_def list_all_iff isspace_def)

lemma key_wire_ok_newline: "key_wire_ok key \<Longrightarrow> CHR 0x0A \<notin> set key"
  by (auto simp: key_wire_ok_def list_all_iff isspace_def)

lemma readLine_line:
  "CHR 0x0A \<notin> set l \<Longrightarrow> length l < kLineBuffer \<Longrightarrow> readLine (l @ CHR 0x0A # rest) = Some (l, rest)"
  by (simp add: readLine_def Let_def field_takeWhile)

lemma to_string_chars: "c \<in> set (to_string n) \<Longrightarrow> \<not> isspace c"
  using to_base_digits [of 10 c n] by (auto simp: isspace_def digit_value_def)

lemma to_string_sign: "\<not> starts_with (to_string n) ''-'' \<and> \<not> starts_with (to_string n) ''+''"
proof -
  have "hd (to_string n) \<in> set (to_string n)" by simp
  then have "digit_value (hd (to_string n)) \<noteq> None" by (rule to_base_digits [rotated 2]) simp_all
  then have "hd (to_string n) \<noteq> CHR ''-''" "hd (to_string n) \<noteq> CHR ''+''" by (auto simp: digit_value_def)
  then show ?thesis by (cases "to_string n") auto
qed

lemma ParseInt_to_string: "n < 2 ^ 63 \<Longrightarrow> ParseInt (to_string n) = Some (int n)"
  by (simp add: ParseInt_def Let_def to_string_sign digits_value_to_base)

lemma length_to_string: "n < 10 ^ k \<Longrightarrow> 0 < k \<Longrightarrow> length (to_string n) \<le> k"
proof (induction k arbitrary: n)
  case (Suc k)
  show ?case
  proof (cases "n < 10")
    case True
    then show ?thesis by (subst to_base.simps) simp
  next
    case False
    have "n div 10 < 10 ^ k" using Suc.prems by (simp add: less_mult_imp_div_less)
    moreover have "0 < k" using False Suc.prems by (cases k) auto
    ultimately have "length (to_string (n div 10)) \<le> k" by (rule Suc.IH)
    then show ?thesis using False by (subst to_base.simps) simp
  qed
qed simp

lemma serve_turn_get:
  assumes "key_wire_ok key"
  shows "serve_turn d (get_request key @ rest) = Some (fst (serve_get d key), value_reply (d_index d key), rest)"
proof -
  have "readLine (get_request key @ rest) = Some (''GET '' @ key, rest)"
    using readLine_line [of "''GET '' @ key" rest] assms key_wire_ok_newline
    by (simp add: get_request_def key_wire_ok_def kLineBuffer_def)
  moreover have "Fields (''GET '' @ key) = [''GET'', key]"
    using Fields_sep [of "''GET''" "CHR '' ''" key] Fields_word [of key] assms
    by (simp add: key_wire_ok_def isspace_def)
  ultimately show ?thesis
    by (auto simp: serve_turn_def serve_request_def serve_get_def value_reply_def Let_def split: option.splits)
qed

lemma serve_turn_put:
  assumes "key_wire_ok key" "length wire \<le> kMaxObjectSize"
  shows "serve_turn d (put_header key wire @ wire @ rest) =
    Some (d\<lparr>d_index := (d_index d)(key \<mapsto> wire), d_puts := d_puts d + 1\<rparr>, ''OK'' @ [CHR 0x0A], rest)"
proof -
  let ?line = "''PUT '' @ key @ '' '' @ to_string (length wire)"
  have len: "length (to_string (length wire)) \<le> 10"
    using assms(2) by (intro length_to_string) (simp_all add: kMaxObjectSize_def)
  have "readLine (put_header key wire @ wire @ rest) = Some (?line, wire @ rest)"
    using readLine_line [of ?line "wire @ rest"] assms(1) key_wire_ok_newline [OF assms(1)] len
    by (simp add: put_header_def key_wire_ok_def kLineBuffer_def)
  moreover have "Fields ?line = [''PUT'', key, to_string (length wire)]"
    using Fields_sep [of "''PUT''" "CHR '' ''" "key @ '' '' @ to_string (length wire)"]
      Fields_sep [of key "CHR '' ''" "to_string (length wire)"] Fields_word [of "to_string (length wire)"]
      to_string_chars assms(1)
    by (simp add: key_wire_ok_def isspace_def list_all_iff)
  moreover have "ParseInt (to_string (length wire)) = Some (int (length wire))"
    using assms(2) by (intro ParseInt_to_string) (simp add: kMaxObjectSize_def)
  ultimately show ?thesis
    using key_wire_ok_key_ok [OF assms(1)] assms(2)
    by (simp add: serve_turn_def serve_request_def serve_put_def store_Put_def kMaxObjectSize_def)
qed

section \<open>Put, then get\<close>

definition put_frame :: "zstd \<Rightarrow> string \<times> string \<Rightarrow> string" where
  "put_frame z = (\<lambda>(key, value). put_header key (Compress z value) @ Compress z value)"

definition item_fits :: "zstd \<Rightarrow> string \<times> string \<Rightarrow> bool" where
  "item_fits z = (\<lambda>(key, value). key_wire_ok key \<and> z_compress z value \<noteq> None \<and> length value < 2 ^ 32 \<and>
     length (Compress z value) \<le> kMaxObjectSize)"

definition put_all :: "zstd \<Rightarrow> (string \<times> string) list \<Rightarrow> (string \<Rightarrow> string option) \<Rightarrow> string \<Rightarrow> string option" where
  "put_all z items m = m ++ map_of (rev (map (\<lambda>(key, value). (key, Compress z value)) items))"

lemma put_all_Nil [simp]: "put_all z [] m = m"
  by (simp add: put_all_def)

lemma put_all_Cons [simp]: "put_all z ((key, value) # items) m = put_all z items (m(key \<mapsto> Compress z value))"
  by (simp add: put_all_def)

lemma put_all_lookup:
  "put_all z items m k = (case map_of (rev items) k of Some v \<Rightarrow> Some (Compress z v) | None \<Rightarrow> m k)"
proof -
  have "map_of (map (\<lambda>(key, value). (key, Compress z value)) xs) k = map_option (Compress z) (map_of xs k)" for xs
    by (induction xs) auto
  then show ?thesis by (simp add: put_all_def map_add_def rev_map split: option.splits)
qed

lemma serve_loop_empty [simp]: "serve_loop d [] = (d, [], [])"
  by (simp add: serve_loop.simps serve_turn_def readLine_def)

lemma serve_loop_turn:
  "serve_turn d (req @ rest) = Some (e, out, rest) \<Longrightarrow>
   serve_loop d (req @ rest) = (case serve_loop e rest of (f, outs, left) \<Rightarrow> (f, out @ outs, left))"
  by (subst serve_loop.simps) simp

lemma serve_loop_puts:
  assumes "list_all (item_fits z) items"
  shows "\<exists>e. serve_loop d (concat (map (put_frame z) items)) =
      (e, concat (replicate (length items) (''OK'' @ [CHR 0x0A])), []) \<and> d_index e = put_all z items (d_index d)"
  using assms
proof (induction items arbitrary: d)
  case (Cons item items)
  obtain key v where item: "item = (key, v)" by fastforce
  let ?w = "Compress z v" and ?rest = "concat (map (put_frame z) items)"
  let ?d = "d\<lparr>d_index := (d_index d)(key \<mapsto> ?w), d_puts := d_puts d + 1\<rparr>"
  have "serve_turn d ((put_header key ?w @ ?w) @ ?rest) = Some (?d, ''OK'' @ [CHR 0x0A], ?rest)"
    using serve_turn_put [of key ?w d ?rest] Cons.prems item by (simp add: item_fits_def)
  from serve_loop_turn [OF this] show ?case
    using Cons.IH [of ?d] Cons.prems item by (auto simp: put_frame_def simp del: fun_upd_apply)
qed simp

lemma serve_loop_gets:
  assumes "list_all key_wire_ok keys"
  shows "\<exists>e. serve_loop d (concat (map get_request keys)) = (e, concat (map (\<lambda>k. value_reply (d_index d k)) keys), []) \<and>
    d_index e = d_index d"
  using assms
proof (induction keys arbitrary: d)
  case (Cons key keys)
  let ?d = "fst (serve_get d key)"
  have "serve_turn d (get_request key @ concat (map get_request keys)) =
      Some (?d, value_reply (d_index d key), concat (map get_request keys))"
    using serve_turn_get Cons.prems by simp
  from serve_loop_turn [OF this] show ?case
    using Cons.IH [of ?d] Cons.prems by (auto simp: serve_get_def Let_def split: option.splits)
qed simp

lemma RecvMany_replies:
  assumes "incoming c = concat (map value_reply ws) @ rest" "list_all reply_fits ws"
  shows "\<exists>d. RecvMany (RecvValue z) (length ws) c = (map (\<lambda>w. Option.bind w (Decompress z)) ws, d) \<and>
    incoming d = rest \<and> same_socket c d"
  using assms
proof (induction ws arbitrary: c)
  case (Cons w ws)
  have "incoming c = value_reply w @ (concat (map value_reply ws) @ rest)" "reply_fits w"
    using Cons.prems by simp_all
  then obtain d where d: "RecvValue z c = (Option.bind w (Decompress z), d)"
    "incoming d = concat (map value_reply ws) @ rest" "same_socket c d"
    by (rule RecvValue_reply)
  with Cons.IH [OF d(2)] Cons.prems show ?case using same_socket_trans by fastforce
qed simp

lemma SendValues_sent:
  assumes "SendValues z c items = (length items, d)"
  shows "cl_sent d = cl_sent c @ concat (map (put_frame z) items)"
  using assms
proof (induction items arbitrary: c)
  case (Cons item items)
  obtain key v where item: "item = (key, v)" by fastforce
  from Cons.prems obtain e where e: "SendValue z c item = (True, e)" "SendValues z e items = (length items, d)"
    by (auto split: prod.splits bool.splits)
  then have "cl_sent e = cl_sent c @ put_frame z item"
    using SendAll_True item
    by (fastforce simp: SendValue_def put_frame_def Let_def split: if_splits prod.splits bool.splits)
  with Cons.IH [OF e(2)] show ?case by simp
qed simp

text \<open>C2: what a client stores, every later client reads.  The bytes of a batch of puts, fed to the
  daemon's request loop, are answered one by one; the bytes of a batch of gets then come back as the values
  last stored under the keys, and the client decodes exactly those, in order, however the kernel cuts the
  reply stream.\<close>

theorem put_then_get:
  assumes "zstd_ok z" "list_all (item_fits z) items" "list_all key_wire_ok keys"
    and "cl_sent c = []" "SendValues z c items = (length items, c')"
    and "serve_loop d (cl_sent c') = (d', acks, left)"
    and "cl_open g" "keys \<noteq> []" "cl_sent g = []" "SendAll g (concat (map get_request keys)) = (True, g')"
    and "incoming g = fst (snd (serve_loop d' (cl_sent g')))"
    and "list_all reply_fits (map (d_index d') keys)"
  shows "acks = concat (replicate (length items) (''OK'' @ [CHR 0x0A])) \<and> left = [] \<and>
    fst (GetMany z g keys) = map (\<lambda>k. case map_of (rev items) k of
      Some v \<Rightarrow> Some v | None \<Rightarrow> Option.bind (d_index d k) (Decompress z)) keys"
proof -
  have "cl_sent c' = concat (map (put_frame z) items)" using SendValues_sent [OF assms(5)] assms(4) by simp
  then have puts: "acks = concat (replicate (length items) (''OK'' @ [CHR 0x0A]))" "left = []"
    "d_index d' = put_all z items (d_index d)"
    using serve_loop_puts [OF assms(2), of d] assms(6) by auto
  have g': "cl_sent g' = concat (map get_request keys)" "incoming g' = incoming g"
    using SendAll_True [OF assms(10)] assms(9) by auto
  then have "incoming g' = concat (map value_reply (map (d_index d') keys)) @ []"
    using serve_loop_gets [OF assms(3), of d'] assms(11) by (auto simp: comp_def)
  then have "fst (GetMany z g keys) = map (\<lambda>k. Option.bind (d_index d' k) (Decompress z)) keys"
    using RecvMany_replies [of g' "map (d_index d') keys" "[]" z] assms(7,8,10,12)
    by (auto simp: GetMany_def comp_def)
  also have "\<dots> = map (\<lambda>k. case map_of (rev items) k of
      Some v \<Rightarrow> Some v | None \<Rightarrow> Option.bind (d_index d k) (Decompress z)) keys"
  proof (rule map_cong [OF refl])
    fix k assume "k \<in> set keys"
    show "Option.bind (d_index d' k) (Decompress z) = (case map_of (rev items) k of
        Some v \<Rightarrow> Some v | None \<Rightarrow> Option.bind (d_index d k) (Decompress z))"
    proof (cases "map_of (rev items) k")
      case (Some v)
      then have "(k, v) \<in> set items" by (metis map_of_SomeD set_rev)
      then have "item_fits z (k, v)" using assms(2) by (simp add: list_all_iff)
      then have "Decompress z (Compress z v) = Some v"
        using Decompress_Compress [OF assms(1), of v] by (auto simp: item_fits_def)
      then show ?thesis using Some by (simp add: puts(3) put_all_lookup)
    qed (simp add: puts(3) put_all_lookup)
  qed
  finally show ?thesis using puts by simp
qed

definition demo_zstd :: zstd where
  "demo_zstd = \<lparr>z_compress = Some, z_decompress = (\<lambda>n w. Some w)\<rparr>"

definition demo_daemon :: daemon where
  "demo_daemon = \<lparr>d_index = Map.empty, d_ident = (\<lambda>_. []), d_held = (\<lambda>_. 0), d_events = [], d_gets = 0, d_hits = 0,
     d_puts = 0, d_stats = []\<rparr>"

definition demo_client :: "string list \<Rightarrow> client" where
  "demo_client chunks = \<lparr>cl_open = True, cl_pending = [], cl_chunks = chunks, cl_accepts = [100, 100, 100], cl_sent = []\<rparr>"

lemma demo_wire: "Compress demo_zstd ''obj'' = [CHR 0x03, CHR 0x00, CHR 0x00, CHR 0x00] @ ''obj''"
  by code_simp

theorem put_then_get_witness:
  "fst (GetMany demo_zstd (demo_client [''OK'', '' 7'' @ [CHR 0x0A, CHR 0x03, CHR 0x00], [CHR 0x00, CHR 0x00] @ ''obj'']) [''o/a'']) =
   [Some ''obj'']"
proof -
  let ?z = demo_zstd and ?items = "[(''o/a'', ''obj'')]" and ?keys = "[''o/a'']"
  let ?g = "demo_client [''OK'', '' 7'' @ [CHR 0x0A, CHR 0x03, CHR 0x00], [CHR 0x00, CHR 0x00] @ ''obj'']"
  have digit: "to_string (Suc (Suc (Suc (Suc (Suc (Suc (Suc 0))))))) = ''7''" by code_simp
  have fits: "list_all (item_fits ?z) ?items" "list_all key_wire_ok ?keys"
    by (simp_all add: item_fits_def key_wire_ok_def isspace_def demo_wire kMaxObjectSize_def, simp add: demo_zstd_def)
  obtain c' where sent: "SendValues ?z (demo_client []) ?items = (length ?items, c')"
    by (simp add: SendValue_def SendAll_def demo_client_def demo_wire put_header_def digit Let_def)
  then have "cl_sent c' = concat (map (put_frame ?z) ?items)" using SendValues_sent by (fastforce simp: demo_client_def)
  then obtain d' acks left where puts: "serve_loop demo_daemon (cl_sent c') = (d', acks, left)"
    "d_index d' = put_all ?z ?items (d_index demo_daemon)"
    using serve_loop_puts [OF fits(1), of demo_daemon] by auto
  obtain g' where get: "SendAll ?g (concat (map get_request ?keys)) = (True, g')"
    by (simp add: SendAll_def demo_client_def get_request_def)
  have "cl_sent g' = concat (map get_request ?keys)" using SendAll_True [OF get] by (simp add: demo_client_def)
  then have "fst (snd (serve_loop d' (cl_sent g'))) = value_reply (Some (Compress ?z ''obj''))"
    using serve_loop_gets [OF fits(2), of d'] puts(2) by auto
  then have reply: "incoming ?g = fst (snd (serve_loop d' (cl_sent g')))"
    by (simp add: incoming_def demo_client_def value_reply_def demo_wire digit)
  show ?thesis
    using put_then_get [of ?z ?items ?keys "demo_client []" c' demo_daemon d' acks left ?g g', OF _ fits _ sent puts(1) _ _ _ get reply]
    by (simp add: zstd_ok_def demo_client_def reply_fits_def puts(2) demo_wire kMaxObjectSize_def)
      (simp add: demo_zstd_def)
qed

section \<open>Slots a connection takes are returned\<close>

fun balance :: "string \<Rightarrow> slot_event list \<Rightarrow> int" where
  "balance b [] = 0"
| "balance b (Acquired c # es) = (if b = c then 1 else 0) + balance b es"
| "balance b (Released c # es) = balance b es - (if b = c then 1 else 0)"

lemma balance_append [simp]: "balance b (xs @ ys) = balance b xs + balance b ys"
  by (induction b xs rule: balance.induct) auto

lemma balance_released [simp]: "balance b (replicate n (Released c)) = (if b = c then - int n else 0)"
  by (induction n) auto

definition slots_balanced :: "daemon \<Rightarrow> bool" where
  "slots_balanced d \<longleftrightarrow> (\<forall>b. balance b (d_events d) = int (d_held d b))"

lemma serve_request_balanced:
  "serve_request d words input = Some (e, out, rest) \<Longrightarrow> slots_balanced d \<Longrightarrow> slots_balanced e"
  by (auto simp: serve_request_def serve_get_def serve_put_def store_Put_def slots_balanced_def Let_def
      split: list.splits if_splits option.splits prod.splits)

lemma serve_loop_balanced: "slots_balanced d \<Longrightarrow> serve_loop d input = (e, out, rest) \<Longrightarrow> slots_balanced e"
proof (induction d input arbitrary: e out rest rule: serve_loop.induct)
  case (1 d input)
  from 1(2,3) show ?case
    by (subst (asm) serve_loop.simps)
      (auto simp: serve_turn_def split: option.splits prod.splits dest: serve_request_balanced intro: 1(1))
qed

lemma balance_hangup:
  assumes "distinct builds"
  shows "balance b (concat (map (\<lambda>x. replicate (f x) (Released x)) builds)) = (if b \<in> set builds then - int (f b) else 0)"
  using assms by (induction builds) auto

text \<open>C23: no slot leaks.  Whatever a client sends and wherever its stream breaks off, once the connection
  is closed every build has given back exactly as many compiler slots as the connection took for it.\<close>

theorem serve_no_slot_leak:
  assumes "d_held d = (\<lambda>_. 0)" "d_events d = []" "serve_loop d input = (e, out, rest)"
    and "distinct builds" "\<forall>b. d_held e b > 0 \<longrightarrow> b \<in> set builds"
  shows "balance b (d_events (serve_hangup e builds)) = 0"
proof -
  have "slots_balanced d" using assms(1,2) by (simp add: slots_balanced_def)
  then have "balance b (d_events e) = int (d_held e b)"
    using serve_loop_balanced assms(3) by (auto simp: slots_balanced_def)
  then show ?thesis
    using assms(4,5) by (auto simp: serve_hangup_def balance_hangup)
qed

theorem serve_no_slot_leak_witness:
  "balance ''b'' (d_events (serve_hangup (fst (serve_loop demo_daemon (''SLOT b'' @ [CHR 0x0A] @ ''SLO''))) [''b''])) = 0"
proof -
  have "serve_loop demo_daemon (''SLOT b'' @ [CHR 0x0A] @ ''SLO'') =
      (demo_daemon\<lparr>d_held := (d_held demo_daemon)(''b'' := 1), d_events := [Acquired ''b'']\<rparr>, ''OK'' @ [CHR 0x0A], ''SLO'')"
    using Fields_sep [of "''SLOT''" "CHR '' ''" "''b''"] Fields_word [of "''b''"]
    by (simp add: serve_loop.simps serve_turn_def serve_request_def readLine_def kLineBuffer_def isspace_def demo_daemon_def)
  from serve_no_slot_leak [OF _ _ this, of "[''b'']" "''b''"] this show ?thesis
    by (simp add: demo_daemon_def)
qed

end
