(* ===== verification/Slots.thy ===== *)
theory Slots
  imports Prelude "HOL-Library.Multiset"
begin

text \<open>
  Host-wide admission of compilers (\<open>jigd/src/slots.go\<close>): at most \<open>limit\<close> run at a time, and when one
  ends the waiting build that holds the fewest slots goes first.  The mutex makes every call of
  \<open>Acquire\<close> and \<open>Release\<close> one step; the step relation interleaves them in any order, and its ghost
  component is the multiset of compilers that run.
\<close>

record slots =
  sl_limit :: int
  sl_out :: int
  sl_held :: "string \<Rightarrow> int"
  sl_waiting :: "string list"

definition NewSlots :: "int \<Rightarrow> slots" where
  "NewSlots limit = \<lparr>sl_limit = limit, sl_out = 0, sl_held = (\<lambda>_. 0), sl_waiting = []\<rparr>"

text \<open>\<open>True\<close>: the caller runs at once; \<open>False\<close>: it waits for its channel.\<close>

definition Acquire :: "slots \<Rightarrow> string \<Rightarrow> slots \<times> bool" where
  "Acquire s build =
     (if sl_out s < sl_limit s \<and> sl_waiting s = []
      then (s\<lparr>sl_out := sl_out s + 1, sl_held := (sl_held s)(build := sl_held s build + 1)\<rparr>, True)
      else (s\<lparr>sl_waiting := sl_waiting s @ [build]\<rparr>, False))"

definition best_waiter :: "(string \<Rightarrow> int) \<Rightarrow> string list \<Rightarrow> nat" where
  "best_waiter held waiting =
     foldl (\<lambda>best i. if held (waiting ! i) < held (waiting ! best) then i else best) 0 [0..<length waiting]"

definition grant_one :: "slots \<Rightarrow> slots \<times> string" where
  "grant_one s =
     (let best = best_waiter (sl_held s) (sl_waiting s); build = sl_waiting s ! best in
      (s\<lparr>sl_waiting := take best (sl_waiting s) @ drop (best + 1) (sl_waiting s), sl_out := sl_out s + 1,
         sl_held := (sl_held s)(build := sl_held s build + 1)\<rparr>, build))"

lemma best_waiter_fold:
  assumes "m < length w" "best < length w"
    and "\<forall>i < m. held (w ! best) \<le> held (w ! i)" "\<forall>i < best. held (w ! best) < held (w ! i)" "best \<le> m"
  shows "let b = foldl (\<lambda>best i. if held (w ! i) < held (w ! best) then i else best) best [m..<length w] in
    b < length w \<and> (\<forall>i < length w. held (w ! b) \<le> held (w ! i)) \<and> (\<forall>i < b. held (w ! b) < (held (w ! i) :: int))"
  using assms
proof (induction "length w - m" arbitrary: m best)
  case (Suc n)
  let ?b = "if held (w ! m) < held (w ! best) then m else best"
  have step: "[m..<length w] = m # [Suc m..<length w]" using Suc.prems(1) by (simp add: upt_conv_Cons)
  have inv: "?b < length w" "\<forall>i < Suc m. held (w ! ?b) \<le> held (w ! i)" "\<forall>i < ?b. held (w ! ?b) < held (w ! i)"
    "?b \<le> Suc m"
  proof -
    show "?b < length w" "?b \<le> Suc m" using Suc.prems by simp_all
    show "\<forall>i < Suc m. held (w ! ?b) \<le> held (w ! i)"
    proof (intro allI impI)
      fix i assume "i < Suc m"
      then show "held (w ! ?b) \<le> held (w ! i)"
        using Suc.prems(3) by (cases "i = m") (auto dest: spec [of _ i])
    qed
    show "\<forall>i < ?b. held (w ! ?b) < held (w ! i)"
    proof (intro allI impI)
      fix i assume "i < ?b"
      then show "held (w ! ?b) < held (w ! i)"
        using Suc.prems(3,4) by (cases "held (w ! m) < held (w ! best)") (auto dest: spec [of _ i])
    qed
  qed
  show ?case
  proof (cases "Suc m < length w")
    case True
    then show ?thesis
      using Suc.hyps(1) [of "Suc m" ?b] Suc.hyps(2) inv step by simp
  next
    case False
    then have "length w = Suc m" using Suc.prems(1) by simp
    then show ?thesis using inv step by (simp add: Let_def)
  qed
qed simp

lemma best_waiter_min:
  assumes "w \<noteq> []"
  shows "best_waiter held w < length w"
    and "\<forall>i < length w. held (w ! best_waiter held w) \<le> held (w ! i)"
    and "\<forall>i < best_waiter held w. held (w ! best_waiter held w) < held (w ! i)"
  using best_waiter_fold [of 0 w 0 held] assms by (auto simp: best_waiter_def Let_def)

function grant :: "slots \<Rightarrow> slots \<times> string list" where
  "grant s =
     (if sl_out s < sl_limit s \<and> sl_waiting s \<noteq> [] then
        (case grant_one s of (s', build) \<Rightarrow> (case grant s' of (s'', woken) \<Rightarrow> (s'', build # woken)))
      else (s, []))"
  by pat_completeness auto
termination
proof (relation "measure (\<lambda>s. length (sl_waiting s))", goal_cases)
  case (2 s s' build)
  then have "best_waiter (sl_held s) (sl_waiting s) < length (sl_waiting s)"
    using best_waiter_min(1) by blast
  then have "length (sl_waiting (fst (grant_one s))) < length (sl_waiting s)"
    by (simp add: grant_one_def Let_def)
  then show ?case using 2(2) by (simp add: prod_eq_iff)
qed simp

declare grant.simps [simp del]

definition Release :: "slots \<Rightarrow> string \<Rightarrow> slots \<times> string list" where
  "Release s build =
     (let held = sl_held s build - 1 in
      grant (s\<lparr>sl_out := sl_out s - 1, sl_held := (sl_held s)(build := (if held \<le> 0 then 0 else held))\<rparr>))"

section \<open>Interleavings\<close>

inductive slots_step :: "slots \<times> string multiset \<Rightarrow> slots \<times> string multiset \<Rightarrow> bool" where
  run: "Acquire s b = (s', True) \<Longrightarrow> slots_step (s, running) (s', add_mset b running)"
| wait: "Acquire s b = (s', False) \<Longrightarrow> slots_step (s, running) (s', running)"
| release: "b \<in># running \<Longrightarrow> Release s b = (s', woken) \<Longrightarrow> slots_step (s, running) (s', running - {#b#} + mset woken)"

inductive slots_reachable :: "int \<Rightarrow> slots \<times> string multiset \<Rightarrow> bool" for limit where
  start: "slots_reachable limit (NewSlots limit, {#})"
| step: "slots_reachable limit c \<Longrightarrow> slots_step c c' \<Longrightarrow> slots_reachable limit c'"

inductive_cases slots_stepE [elim!]: "slots_step (s, r) c"

definition slots_match :: "slots \<Rightarrow> string multiset \<Rightarrow> bool" where
  "slots_match s running \<longleftrightarrow> sl_out s = int (size running) \<and> (\<forall>b. sl_held s b = int (count running b))"

definition slots_inv :: "int \<Rightarrow> slots \<times> string multiset \<Rightarrow> bool" where
  "slots_inv limit c = (case c of (s, running) \<Rightarrow>
     sl_limit s = limit \<and> slots_match s running \<and> sl_out s \<le> limit \<and> (sl_waiting s \<noteq> [] \<longrightarrow> sl_out s = limit))"

lemma grant_one_match:
  assumes "slots_match s running" "grant_one s = (s', b)"
  shows "slots_match s' (add_mset b running)" "sl_limit s' = sl_limit s" "sl_out s' = sl_out s + 1"
proof -
  have s': "sl_limit s' = sl_limit s" "sl_out s' = sl_out s + 1" "sl_held s' = (sl_held s)(b := sl_held s b + 1)"
    using assms(2) by (auto simp: grant_one_def Let_def)
  show "slots_match s' (add_mset b running)"
    using assms(1) unfolding slots_match_def s' by simp
  show "sl_limit s' = sl_limit s" "sl_out s' = sl_out s + 1" by (rule s')+
qed

lemma grant_inv:
  "slots_match s running \<Longrightarrow> sl_out s \<le> sl_limit s \<Longrightarrow> grant s = (s', woken) \<Longrightarrow>
   slots_inv (sl_limit s) (s', running + mset woken)"
proof (induction s arbitrary: running s' woken rule: grant.induct)
  case (1 s)
  show ?case
  proof (cases "sl_out s < sl_limit s \<and> sl_waiting s \<noteq> []")
    case True
    obtain t b where one: "grant_one s = (t, b)" by fastforce
    obtain u w where rest: "grant t = (u, w)" by fastforce
    note t = grant_one_match [OF 1(2) one]
    have "sl_out t \<le> sl_limit t" using t True by simp
    from 1(1) [OF True one [symmetric] t(1) this rest]
    have inv: "slots_inv (sl_limit s) (u, running + mset (b # w))" using t(2) by simp
    have "grant s = (u, b # w)"
      by (subst grant.simps) (simp only: True if_True one rest prod.case simp_thms)
    then have "s' = u" "woken = b # w" using 1(4) by simp_all
    with inv show ?thesis by simp
  next
    case False
    have "grant s = (s, [])" by (subst grant.simps) (simp only: False if_False)
    then have "s' = s" "woken = []" using 1(4) by simp_all
    with False 1(2,3) show ?thesis by (auto simp: slots_inv_def)
  qed
qed

lemma Release_inv:
  assumes "slots_inv limit (s, running)" "b \<in># running" "Release s b = (s', woken)"
  shows "slots_inv limit (s', running - {#b#} + mset woken)"
proof -
  let ?t = "s\<lparr>sl_out := sl_out s - 1, sl_held := (sl_held s)(b := (if sl_held s b - 1 \<le> 0 then 0 else sl_held s b - 1))\<rparr>"
  obtain r where r: "running = add_mset b r" using assms(2) by (metis multi_member_split)
  have "slots_match ?t (running - {#b#})" "sl_out ?t \<le> sl_limit ?t" "sl_limit ?t = limit"
    using assms(1) by (auto simp: slots_inv_def slots_match_def r)
  then show ?thesis
    using grant_inv [of ?t "running - {#b#}" s' woken] assms(3) by (simp add: Release_def Let_def)
qed

lemma Acquire_inv:
  "Acquire s b = (s', now) \<Longrightarrow> slots_inv limit (s, running) \<Longrightarrow>
   slots_inv limit (s', if now then add_mset b running else running)"
  by (auto simp: slots_inv_def slots_match_def Acquire_def split: if_splits)

lemma slots_step_inv: "slots_step c c' \<Longrightarrow> slots_inv limit c \<Longrightarrow> slots_inv limit c'"
proof (induction rule: slots_step.induct)
  case (run s b s' running)
  then show ?case using Acquire_inv [of s b s' True] by simp
next
  case (wait s b s' running)
  then show ?case using Acquire_inv [of s b s' False] by simp
next
  case (release b running s s' woken)
  then show ?case using Release_inv by blast
qed

lemma slots_reachable_inv: "slots_reachable limit c \<Longrightarrow> 0 \<le> limit \<Longrightarrow> slots_inv limit c"
proof (induction rule: slots_reachable.induct)
  case start
  then show ?case by (simp add: slots_inv_def slots_match_def NewSlots_def)
next
  case (step c c')
  then show ?case using slots_step_inv by blast
qed

text \<open>C5: admission is safe and work-conserving.  In every reachable state the counters agree with the
  compilers that run, at most \<open>limit\<close> of them run, and nobody waits while a slot is free.\<close>

theorem slots_safe:
  assumes "slots_reachable limit (s, running)" "0 \<le> limit"
  shows "sl_out s = int (size running) \<and> (\<forall>b. sl_held s b = int (count running b)) \<and>
    int (size running) \<le> limit \<and> (sl_waiting s = [] \<or> int (size running) = limit)"
  using slots_reachable_inv [OF assms] by (auto simp: slots_inv_def slots_match_def)

theorem slots_safe_witness:
  "sl_waiting (fst (Acquire (fst (Acquire (NewSlots 1) ''a'')) ''b'')) = [''b''] \<and>
   (sl_waiting (fst (Acquire (fst (Acquire (NewSlots 1) ''a'')) ''b'')) = [] \<or> int (size {#''a''#}) = 1)"
proof -
  let ?s = "fst (Acquire (NewSlots 1) ''a'')" and ?t = "fst (Acquire (fst (Acquire (NewSlots 1) ''a'')) ''b'')"
  have "slots_step (NewSlots 1, {#}) (?s, add_mset ''a'' {#})" "slots_step (?s, {#''a''#}) (?t, {#''a''#})"
    by (auto intro!: slots_step.intros simp: Acquire_def NewSlots_def)
  then have "slots_reachable 1 (?t, {#''a''#})" by (meson slots_reachable.intros)
  from slots_safe [OF this] show ?thesis by (simp add: Acquire_def NewSlots_def)
qed

text \<open>Of the waiting builds the one that holds the fewest slots is woken, the longest waiting among
  equals, and it leaves the queue while the others keep their order.\<close>

theorem grant_fewest_first:
  assumes "sl_waiting s \<noteq> []"
  shows "\<exists>i < length (sl_waiting s). snd (grant_one s) = sl_waiting s ! i \<and>
    sl_waiting (fst (grant_one s)) = take i (sl_waiting s) @ drop (i + 1) (sl_waiting s) \<and>
    (\<forall>j < length (sl_waiting s). sl_held s (sl_waiting s ! i) \<le> sl_held s (sl_waiting s ! j) \<and>
       (j < i \<longrightarrow> sl_held s (sl_waiting s ! i) < sl_held s (sl_waiting s ! j)))"
  using best_waiter_min [OF assms, of "sl_held s"]
  by (intro exI [of _ "best_waiter (sl_held s) (sl_waiting s)"]) (auto simp: grant_one_def Let_def)

theorem grant_fewest_first_witness:
  "snd (grant_one \<lparr>sl_limit = 4, sl_out = 3, sl_held = (\<lambda>b. if b = ''make'' then 3 else 0), sl_waiting = [''make'', ''probe'']\<rparr>) = ''probe''"
proof -
  let ?s = "\<lparr>sl_limit = 4, sl_out = 3, sl_held = (\<lambda>b. if b = ''make'' then 3 else 0), sl_waiting = [''make'', ''probe'']\<rparr>"
  obtain i where "i < length (sl_waiting ?s)" "snd (grant_one ?s) = sl_waiting ?s ! i"
    "\<forall>j < length (sl_waiting ?s). sl_held ?s (sl_waiting ?s ! i) \<le> sl_held ?s (sl_waiting ?s ! j)"
    using grant_fewest_first [of ?s] by auto
  then show ?thesis by (cases i) (auto dest: spec [of _ 1])
qed

end
