(* ===== verification/Store.thy ===== *)
theory Store
  imports Files "HOL-Library.AList"
begin

text \<open>
  \<open>store.cc\<close>: what a path means inside a cache key.  Store hashes are masked, the build's own output
  hash is swapped for a placeholder of the same width, the random directory names of cmake are blanked,
  and a masked path is resolved against the roots of the running build.  The store directory is a
  compile-time constant of the program and a field of the model's record; the table of roots is the
  association list in the order the hash map is walked.
\<close>

definition kStoreHashLength :: nat where
  "kStoreHashLength = 32"

definition kPathEnds :: string where
  "kPathEnds = [CHR '' '', CHR 0x09, CHR 0x0A, CHR 0x5C, CHR '':'', CHR 0x22, CHR 0x27, CHR '';'',
     CHR '','', CHR '')'', CHR '']'', CHR ''}'', CHR ''>'']"

record store =
  st_dir :: string
  st_by_content :: bool
  st_out :: string
  st_out_hash :: string
  st_masked_to_real :: "(string \<times> string) list"
  st_known_ids :: "string \<Rightarrow> string option"

section \<open>Masking store hashes\<close>

definition IsStorePath :: "store \<Rightarrow> string \<Rightarrow> bool" where
  "IsStorePath st path \<longleftrightarrow>
     length path > length (st_dir st) \<and> starts_with path (st_dir st) \<and> path ! length (st_dir st) = slash"

definition is_store_hash_char :: "char \<Rightarrow> bool" where
  "is_store_hash_char c \<longleftrightarrow> c \<in> set ''0123456789abcdfghijklmnpqrsvwxyz''"

definition IsStoreHash :: "string \<Rightarrow> bool" where
  "IsStoreHash s \<longleftrightarrow> length s = kStoreHashLength \<and> list_all is_store_hash_char s"

function MaskHashes_loop :: "string \<Rightarrow> string \<Rightarrow> nat \<Rightarrow> string" where
  "MaskHashes_loop pref s pos =
     (case find_from s pref pos of
        None \<Rightarrow> s
      | Some p \<Rightarrow>
          let hash_start = p + length pref;
              s' = (if length s > hash_start + kStoreHashLength \<and>
                       s ! (hash_start + kStoreHashLength) = CHR ''-'' \<and>
                       IsStoreHash (substr s hash_start kStoreHashLength)
                    then replace_at s hash_start kStoreHashLength ''*'' else s)
          in MaskHashes_loop pref s' (hash_start + 1))"
  by pat_completeness auto
termination
proof (relation "measure (\<lambda>(_, s, pos). Suc (length s) - pos)", goal_cases)
  case 1
  show ?case by simp
next
  case (2 pref s pos p hash_start s')
  then show ?case
    using find_from_Some [OF 2(1)] by (auto simp: kStoreHashLength_def)
qed

declare MaskHashes_loop.simps [simp del]

definition MaskHashes :: "store \<Rightarrow> string \<Rightarrow> string" where
  "MaskHashes st s = MaskHashes_loop (st_dir st @ ''/'') s 0"

section \<open>The own output\<close>

definition kOutPlaceholder :: string where
  "kOutPlaceholder = replicate kStoreHashLength CHR ''e''"

text \<open>The cursor moves by the width of \<open>old\<close>.  Both strings are a store directory, 32 characters and
  two separators, so the widths agree; a pair of different widths does not occur and is left alone.\<close>

function SwapOutHash_loop :: "string \<Rightarrow> string \<Rightarrow> string \<Rightarrow> nat \<Rightarrow> string" where
  "SwapOutHash_loop old into s pos =
     (if old = [] \<or> length into \<noteq> length old then s
      else case find_from s old pos of
        None \<Rightarrow> s
      | Some p \<Rightarrow> SwapOutHash_loop old into (replace_at s p (length old) into) (p + length old))"
  by pat_completeness auto
termination
proof (relation "measure (\<lambda>(_, _, s, pos). length s - pos)", goal_cases)
  case 1
  show ?case by simp
next
  case (2 old into s pos p)
  then show ?case
    using find_from_Some [OF 2(2)] by (cases old) auto
qed

declare SwapOutHash_loop.simps [simp del]

definition out_pattern :: "store \<Rightarrow> string \<Rightarrow> string" where
  "out_pattern st hash = st_dir st @ ''/'' @ hash @ ''-''"

definition SwapOutHash :: "store \<Rightarrow> string \<Rightarrow> bool \<Rightarrow> string" where
  "SwapOutHash st bs back =
     (if st_out_hash st = [] then bs
      else let real = out_pattern st (st_out_hash st);
               placeholder = out_pattern st kOutPlaceholder;
               old = (if back then placeholder else real);
               into = (if back then real else placeholder)
           in SwapOutHash_loop old into bs 0)"

definition MaskOut :: "store \<Rightarrow> string \<Rightarrow> string" where
  "MaskOut st bs = SwapOutHash st bs False"

definition UnmaskOut :: "store \<Rightarrow> string \<Rightarrow> string" where
  "UnmaskOut st bs = SwapOutHash st bs True"

section \<open>Random names and path arguments\<close>

definition isalnum :: "char \<Rightarrow> bool" where
  "isalnum c \<longleftrightarrow> digit_value c \<noteq> None"

function MaskRandom_loop :: "string \<Rightarrow> nat \<Rightarrow> string \<Rightarrow> nat \<Rightarrow> string" where
  "MaskRandom_loop pref width s pos =
     (if pref = [] then s
      else case find_from s pref pos of
        None \<Rightarrow> s
      | Some p \<Rightarrow>
          let start = p + length pref in
          if length s < start + width then s
          else let s' = (if list_all isalnum (substr s start width)
                         then replace_at s start width (replicate width CHR ''#'') else s)
               in MaskRandom_loop pref width s' start)"
  by pat_completeness auto
termination
proof (relation "measure (\<lambda>(_, _, s, pos). length s - pos)", goal_cases)
  case 1
  show ?case by simp
next
  case (2 pref width s pos p start s')
  then show ?case
    using find_from_Some [OF 2(2)] by (cases pref) auto
qed

declare MaskRandom_loop.simps [simp del]

definition MaskRandomNames :: "string \<Rightarrow> string" where
  "MaskRandomNames s = MaskRandom_loop ''cmTC_'' 5 (MaskRandom_loop ''TryCompile-'' 6 s 0) 0"

text \<open>Where the value of an argument begins; \<open>None\<close> where the argument is returned as it is.\<close>

definition path_arg_start :: "string \<Rightarrow> nat option" where
  "path_arg_start arg =
     (if starts_with arg ''-D'' \<or> starts_with arg ''-U'' then None
      else if starts_with arg ''--'' then map_option Suc (find_str ''='' arg)
      else if starts_with arg ''-'' \<and> length arg > 2 \<and> arg ! 1 \<noteq> CHR ''-'' then
        (case find_str ''='' arg of
           None \<Rightarrow> Some 2
         | Some equals \<Rightarrow> if \<not> contains (take equals arg) ''/'' then Some (equals + 1) else Some 2)
      else if starts_with arg ''-'' then None
      else Some 0)"

definition NormalizePathArg :: "string \<Rightarrow> string" where
  "NormalizePathArg arg =
     (case path_arg_start arg of
        None \<Rightarrow> arg
      | Some start \<Rightarrow>
          let value = drop start arg in
          if \<not> contains value ''/'' \<and> \<not> starts_with value ''.'' then arg
          else let normal = lexically_normal value;
                   normal = (if length normal > 1 \<and> ends_with normal ''/'' then butlast normal else normal);
                   normal = (if normal = [] then ''.'' else normal)
               in take start arg @ normal)"

definition Key :: "store \<Rightarrow> string \<Rightarrow> string" where
  "Key st arg =
     (let key = MaskRandomNames (NormalizePathArg arg) in
      if st_by_content st then MaskHashes st key else key)"

definition MaskForReplay :: "store \<Rightarrow> string \<Rightarrow> string" where
  "MaskForReplay st s = (if st_by_content st then MaskHashes st s else s)"

definition StateDir :: "store \<Rightarrow> string" where
  "StateDir st =
     (if contains (st_dir st) ''/''
      then butlast (rev (dropWhile (\<lambda>c. c \<noteq> slash) (rev (st_dir st)))) else st_dir st) @ ''/var/nix''"

section \<open>Resolving against this build's roots\<close>

definition Resolve :: "store \<Rightarrow> string \<Rightarrow> string option" where
  "Resolve st path =
     (if \<not> starts_with path (st_dir st @ ''/*-'') then Some path
      else let sl = find_from path ''/'' (length (st_dir st) + 3);
               key = (case sl of None \<Rightarrow> path | Some i \<Rightarrow> take i path)
           in case map_of (st_masked_to_real st) key of
                None \<Rightarrow> None
              | Some root \<Rightarrow> Some (root @ (case sl of None \<Rightarrow> [] | Some i \<Rightarrow> drop i path)))"

function ResolveAll_loop :: "string \<Rightarrow> string \<Rightarrow> string \<Rightarrow> nat \<Rightarrow> string" where
  "ResolveAll_loop masked real s pos =
     (if masked = [] then s
      else case find_from s masked pos of
        None \<Rightarrow> s
      | Some p \<Rightarrow>
          let e = p + length masked in
          if e < length s \<and> s ! e \<noteq> slash \<and> s ! e \<notin> set kPathEnds
          then ResolveAll_loop masked real s e
          else ResolveAll_loop masked real (replace_at s p (length masked) real) (p + length real))"
  by pat_completeness auto
termination
proof (relation "measure (\<lambda>(_, _, s, pos). length s - pos)", goal_cases)
  case 1
  show ?case by simp
next
  case (2 masked real s pos p e)
  then show ?case using find_from_Some [OF 2(2)] by (cases masked) auto
next
  case (3 masked real s pos p e)
  then show ?case using find_from_Some [OF 3(2)] by (cases masked) auto
qed

declare ResolveAll_loop.simps [simp del]

definition ResolveAll :: "store \<Rightarrow> string \<Rightarrow> string" where
  "ResolveAll st s =
     foldl (\<lambda>s (masked, real). ResolveAll_loop masked real s 0) (MaskHashes st s) (st_masked_to_real st)"

section \<open>The constructor\<close>

definition emplace :: "('k \<times> 'v) list \<Rightarrow> 'k \<Rightarrow> 'v \<Rightarrow> ('k \<times> 'v) list" where
  "emplace m k v = (if map_of m k = None then m @ [(k, v)] else m)"

definition store_root :: "string \<Rightarrow> string \<Rightarrow> string" where
  "store_root dir root =
     (case find_from root ''/'' (length dir + 1) of None \<Rightarrow> root | Some i \<Rightarrow> take i root)"

definition add_root :: "store \<Rightarrow> string \<Rightarrow> store" where
  "add_root st root =
     (let root = store_root (st_dir st) root; masked = MaskHashes st root in
      if masked \<noteq> root then st\<lparr>st_masked_to_real := emplace (st_masked_to_real st) masked root\<rparr> else st)"

text \<open>The object before the table of roots is filled.\<close>

definition Store_bare :: "string \<Rightarrow> env \<Rightarrow> store" where
  "Store_bare dir env =
     (let out = Env env ''out'' [];
          st = \<lparr>st_dir = dir, st_by_content = (Env env ''JIG_STORE_IDENTITY'' ''path'' = ''content''),
                st_out = out, st_out_hash = [], st_masked_to_real = [], st_known_ids = Map.empty\<rparr>
      in if st_by_content st \<and> IsStorePath st out \<and> length out > length dir + 1 + kStoreHashLength \<and>
            out ! (length dir + 1 + kStoreHashLength) = CHR ''-''
         then st\<lparr>st_out_hash := substr out (length dir + 1) kStoreHashLength\<rparr> else st)"

definition Store_init :: "string \<Rightarrow> env \<Rightarrow> store" where
  "Store_init dir env =
     (let st = Store_bare dir env in
      if \<not> st_by_content st then st
      else foldl add_root st (Split (Env env ''JIG_STORE_ROOTS'' []) CHR '' '' False @ [st_out st]))"

section \<open>Identities\<close>

definition ToolId :: "store \<Rightarrow> (string \<Rightarrow> string option) \<Rightarrow> string \<Rightarrow> string" where
  "ToolId st canonical path =
     Key st (case canonical (parent_path path) of
               None \<Rightarrow> path
             | Some dir \<Rightarrow> path_append dir (path_filename path))"

definition DaemonMayIdentify :: "store \<Rightarrow> string \<Rightarrow> bool" where
  "DaemonMayIdentify st path =
     (let under_out = st_out st \<noteq> [] \<and> starts_with path (st_out st) \<and>
            (length path = length (st_out st) \<or> path ! length (st_out st) = slash)
      in st_by_content st \<and> IsStorePath st path \<and> \<not> under_out)"

definition RememberIdentity :: "store \<Rightarrow> string \<Rightarrow> string \<Rightarrow> store" where
  "RememberIdentity st path identity = st\<lparr>st_known_ids := (st_known_ids st)(path \<mapsto> identity)\<rparr>"

definition InputId :: "(string \<Rightarrow> string) \<Rightarrow> (string \<Rightarrow> string option) \<Rightarrow> store \<Rightarrow> string \<Rightarrow> string option" where
  "InputId blake3 readf st path =
     (if IsStorePath st path \<and> \<not> st_by_content st then Some (''S:'' @ path)
      else case st_known_ids st path of
        Some identity \<Rightarrow> Some identity
      | None \<Rightarrow>
          (case readf path of
             None \<Rightarrow> None
           | Some content \<Rightarrow>
               Some (''C:'' @ HashOf blake3 (if IsStorePath st path then content else MaskOut st content))))"

section \<open>Masking as a function of the remaining text\<close>

definition maskable :: "string \<Rightarrow> bool" where
  "maskable r \<longleftrightarrow> length r > kStoreHashLength \<and> r ! kStoreHashLength = CHR ''-'' \<and>
     IsStoreHash (take kStoreHashLength r)"

function mask_ref :: "string \<Rightarrow> string \<Rightarrow> string" where
  "mask_ref pref s =
     (if s = [] then []
      else if prefix pref s then
        (let r = drop (length pref) s in
         if maskable r then pref @ CHR ''*'' # mask_ref pref (drop kStoreHashLength r)
         else case r of [] \<Rightarrow> pref | c # r' \<Rightarrow> pref @ c # mask_ref pref r')
      else hd s # mask_ref pref (tl s))"
  by pat_completeness auto
termination
proof (relation "measure (\<lambda>(_, s). length s)", goal_cases)
  case (3 pref s r c r')
  then have "length (c # r') \<le> length s" by (metis length_drop diff_le_self)
  then show ?case by simp
qed (auto simp: maskable_def kStoreHashLength_def)

declare mask_ref.simps [simp del]

lemma mask_ref_Nil [simp]: "mask_ref pref [] = []"
  by (simp add: mask_ref.simps)

lemma mask_ref_skip: "\<not> prefix pref (c # s) \<Longrightarrow> mask_ref pref (c # s) = c # mask_ref pref s"
  by (simp add: mask_ref.simps)

lemma mask_ref_mask:
  "pref \<noteq> [] \<Longrightarrow> maskable r \<Longrightarrow> mask_ref pref (pref @ r) = pref @ CHR ''*'' # mask_ref pref (drop kStoreHashLength r)"
  by (subst mask_ref.simps) simp

lemma mask_ref_keep:
  "pref \<noteq> [] \<Longrightarrow> \<not> maskable r \<Longrightarrow>
   mask_ref pref (pref @ r) = (case r of [] \<Rightarrow> pref | c # r' \<Rightarrow> pref @ c # mask_ref pref r')"
  by (subst mask_ref.simps) simp

lemma mask_ref_find:
  "pref \<noteq> [] \<Longrightarrow> find_str pref s = Some p \<Longrightarrow> mask_ref pref s = take p s @ mask_ref pref (drop p s)"
proof (induction pref s arbitrary: p rule: find_str.induct)
  case (2 pref c cs)
  then show ?case by (auto simp: mask_ref_skip split: if_splits)
qed simp

lemma mask_ref_absent: "\<not> sublist pref s \<Longrightarrow> mask_ref pref s = s"
  by (induction s) (auto simp: mask_ref_skip sublist_Cons_right)

lemma MaskHashes_loop_step:
  assumes "find_str pref s = Some p" "r = drop (p + length pref) s" "out = pre @ take p s @ pref"
  shows "MaskHashes_loop pref (pre @ s) (length pre) =
    MaskHashes_loop pref (if maskable r then (out @ ''*'') @ drop kStoreHashLength r else out @ r) (length out + 1)"
proof -
  have p: "p \<le> length s" using find_str_Some [OF assms(1)] by simp
  then have hash_start: "length pre + p + length pref = length out" by (simp add: assms(3))
  have whole: "pre @ s = out @ r" using find_str_decomp [OF assms(1)] assms(2,3) by simp
  have len: "length pre + length s = length out + length r"
    using arg_cong [OF whole, of length] by simp
  show ?thesis
    using assms(1) by (subst MaskHashes_loop.simps)
      (simp add: find_from_append hash_start Let_def,
        simp add: whole len maskable_def nth_append str_simps replace_at_def, blast)
qed

lemma mask_ref_found:
  assumes "pref \<noteq> []" "find_str pref s = Some p" "r = drop (p + length pref) s"
  shows "mask_ref pref s = take p s @ pref @
    (if maskable r then CHR ''*'' # mask_ref pref (drop kStoreHashLength r)
     else case r of [] \<Rightarrow> [] | c # r' \<Rightarrow> c # mask_ref pref r')"
proof -
  have "s = take p s @ pref @ r" "p \<le> length s"
    using find_str_decomp [OF assms(2)] find_str_Some [OF assms(2)] assms(3) by auto
  then have "drop p s = pref @ r" by (metis append_eq_conv_conj length_take min_absorb2)
  then show ?thesis
    using mask_ref_find [OF assms(1,2)] mask_ref_mask [OF assms(1)] mask_ref_keep [OF assms(1)]
    by (auto split: list.splits)
qed

lemma MaskHashes_loop_ref:
  assumes "pref \<noteq> []"
  shows "MaskHashes_loop pref (pre @ s) (length pre) = pre @ mask_ref pref s"
proof (induction s arbitrary: pre rule: length_induct)
  case (1 s)
  show ?case
  proof (cases "find_str pref s")
    case None
    then show ?thesis
      using find_str_None [of pref s]
      by (subst MaskHashes_loop.simps) (simp add: str_simps mask_ref_absent)
  next
    case (Some p)
    define r where "r = drop (p + length pref) s"
    define out where "out = pre @ take p s @ pref"
    have "length r < length s"
      using find_str_Some [OF Some] assms by (cases pref) (auto simp: r_def)
    then have IH: "MaskHashes_loop pref ((out @ [c]) @ q) (length (out @ [c])) = (out @ [c]) @ mask_ref pref q"
      if "length q \<le> length r" for q c
      using 1 that by (metis order.strict_trans1)
    note step = MaskHashes_loop_step [OF Some r_def out_def]
      and ref = mask_ref_found [OF assms Some r_def]
    show ?thesis
    proof (cases "maskable r")
      case True
      then show ?thesis
        using step ref IH [of "drop kStoreHashLength r" "CHR ''*''"] by (simp add: out_def)
    next
      case keep: False
      show ?thesis
      proof (cases r)
        case Nil
        then have "MaskHashes_loop pref (pre @ s) (length pre) = out"
          using step keep by (simp add: MaskHashes_loop.simps [of pref out] find_from_def)
        then show ?thesis using ref keep Nil by (simp add: out_def)
      next
        case (Cons c r')
        then show ?thesis using step ref keep IH [of r' c] by (simp add: out_def)
      qed
    qed
  qed
qed

lemma MaskHashes_ref: "MaskHashes st s = mask_ref (st_dir st @ ''/'') s"
  using MaskHashes_loop_ref [of "st_dir st @ ''/''" "[]" s] by (simp add: MaskHashes_def)

section \<open>What masking does\<close>

lemma mask_ref_induct [consumes 1, case_names Nil mask last keep skip]:
  assumes "pref \<noteq> []" "P []"
    and "\<And>r. maskable r \<Longrightarrow> P (drop kStoreHashLength r) \<Longrightarrow> P (pref @ r)"
    and "P pref"
    and "\<And>c r. \<not> maskable (c # r) \<Longrightarrow> P r \<Longrightarrow> P (pref @ c # r)"
    and "\<And>c s. \<not> prefix pref (c # s) \<Longrightarrow> P s \<Longrightarrow> P (c # s)"
  shows "P s"
proof (induction s rule: length_induct)
  case (1 s)
  show ?case
  proof (cases "prefix pref s")
    case True
    then obtain r where s: "s = pref @ r" by (auto simp: prefix_def)
    have "P (drop kStoreHashLength r)" using 1 s assms(1) by (cases pref) auto
    moreover have "P (tl r)" if "r \<noteq> []" using 1 s assms(1) that by (cases r) auto
    ultimately show ?thesis
      using s assms(3) [of r] assms(4) assms(5) [of "hd r" "tl r"] by (cases r) auto
  next
    case False
    then show ?thesis using 1 assms(2,6) by (cases s) auto
  qed
qed

lemma star_not_hash: "is_store_hash_char c \<Longrightarrow> c \<noteq> CHR ''*''"
  by (auto simp: is_store_hash_char_def)

lemma not_maskable_Nil [simp]: "\<not> maskable []"
  by (simp add: maskable_def)

lemma not_maskable_star [simp]: "\<not> maskable (CHR ''*'' # s)"
  by (auto simp: maskable_def IsStoreHash_def kStoreHashLength_def is_store_hash_char_def)

lemma mask_ref_pref [simp]: "pref \<noteq> [] \<Longrightarrow> mask_ref pref pref = pref"
  using mask_ref_keep [of pref "[]"] by simp

lemma mask_ref_star [simp]:
  "pref \<noteq> [] \<Longrightarrow> mask_ref pref (pref @ CHR ''*'' # s) = pref @ CHR ''*'' # mask_ref pref s"
  using mask_ref_keep [of pref "CHR ''*'' # s"] by simp

lemma mask_ref_keep_Cons:
  "pref \<noteq> [] \<Longrightarrow> \<not> maskable (c # r) \<Longrightarrow> mask_ref pref (pref @ c # r) = pref @ c # mask_ref pref r"
  by (simp add: mask_ref_keep)

text \<open>As long as no star shows up, the masked text still agrees with the text.\<close>

lemma mask_ref_take:
  assumes "pref \<noteq> []" "CHR ''*'' \<notin> set (take n (mask_ref pref s))"
  shows "take n (mask_ref pref s) = take n s"
  using assms
proof (induction s arbitrary: n rule: mask_ref_induct)
  case (mask r)
  then have "n \<le> length pref"
    by (cases "n \<le> length pref") (auto simp: mask_ref_mask [OF assms(1)] take_Cons' split: if_splits)
  then show ?case using mask by (simp add: mask_ref_mask [OF assms(1)])
next
  case (keep c r)
  then show ?case by (auto simp: mask_ref_keep_Cons [OF assms(1)] take_Cons' split: if_splits)
next
  case (skip c s)
  then show ?case by (cases n) (auto simp: mask_ref_skip)
qed (simp_all add: assms(1))

lemma maskable_take: "maskable r \<longleftrightarrow> maskable (take (Suc kStoreHashLength) r)"
  by (simp add: maskable_def)

lemma maskable_no_star:
  assumes "maskable r"
  shows "CHR ''*'' \<notin> set (take (Suc kStoreHashLength) r)"
proof -
  have "take (Suc kStoreHashLength) r = take kStoreHashLength r @ ''-''"
    using assms by (simp add: maskable_def take_Suc_conv_app_nth)
  moreover have "CHR ''*'' \<notin> set (take kStoreHashLength r)"
    using assms star_not_hash by (auto simp: maskable_def IsStoreHash_def list_all_iff)
  ultimately show ?thesis by simp
qed

lemma maskable_mask_ref:
  assumes "pref \<noteq> []" "maskable (c # mask_ref pref r)"
  shows "maskable (c # r)"
proof -
  have "take kStoreHashLength (mask_ref pref r) = take kStoreHashLength r"
    using maskable_no_star [OF assms(2)] by (intro mask_ref_take [OF assms(1)]) simp
  then show ?thesis
    using assms(2) maskable_take [of "c # r"] maskable_take [of "c # mask_ref pref r"] by simp
qed

lemma prefix_mask_ref:
  assumes "pref \<noteq> []" "CHR ''*'' \<notin> set pref" "prefix pref (c # mask_ref pref s)"
  shows "prefix pref (c # s)"
proof -
  let ?n = "length pref - 1"
  have "take (length pref) (c # mask_ref pref s) = pref"
    using assms(3) by (auto simp: prefix_def)
  then have eq: "c # take ?n (mask_ref pref s) = pref"
    using assms(1) by (simp add: take_Cons')
  then have "CHR ''*'' \<notin> set (take ?n (mask_ref pref s))"
    using assms(2) by (metis list.set_intros(2))
  then have "take ?n (mask_ref pref s) = take ?n s"
    by (rule mask_ref_take [OF assms(1)])
  with eq have "take (length pref) (c # s) = pref"
    using assms(1) by (simp add: take_Cons')
  then show ?thesis by (metis take_is_prefix)
qed

lemma mask_ref_idem:
  assumes "pref \<noteq> []" "CHR ''*'' \<notin> set pref"
  shows "mask_ref pref (mask_ref pref s) = mask_ref pref s"
  using assms(1)
proof (induction s rule: mask_ref_induct)
  case (mask r)
  then show ?case by (simp add: mask_ref_mask [OF assms(1)] assms(1))
next
  case (keep c r)
  then have "\<not> maskable (c # mask_ref pref r)" using maskable_mask_ref [OF assms(1)] by blast
  with keep show ?case by (simp add: mask_ref_keep_Cons [OF assms(1)])
next
  case (skip c s)
  then have "\<not> prefix pref (c # mask_ref pref s)" using prefix_mask_ref [OF assms] by blast
  with skip show ?case by (simp add: mask_ref_skip)
qed (simp_all add: assms(1))

text \<open>Masking is idempotent: a key that has been masked once is not changed by masking it again, so
  stored texts can be masked on the way in and on the way out.\<close>

theorem MaskHashes_idem:
  assumes "CHR ''*'' \<notin> set (st_dir st)"
  shows "MaskHashes st (MaskHashes st s) = MaskHashes st s"
  using assms by (simp add: MaskHashes_ref mask_ref_idem)

definition nix_store :: store where
  "nix_store = \<lparr>st_dir = ''/nix/store'', st_by_content = True, st_out = [], st_out_hash = [],
     st_masked_to_real = [], st_known_ids = Map.empty\<rparr>"

theorem MaskHashes_idem_witness:
  "MaskHashes nix_store (MaskHashes nix_store ''/nix/store/0123456789abcdfghijklmnpqrsvwxyz-zlib/lib'') =
   MaskHashes nix_store ''/nix/store/0123456789abcdfghijklmnpqrsvwxyz-zlib/lib''"
  using MaskHashes_idem [of nix_store] by (simp add: nix_store_def)

text \<open>A text with store paths in it: the text before the first path, then for each path its hash and
  the text that follows the dash, up to the next path.\<close>

definition store_text :: "string \<Rightarrow> string \<Rightarrow> (string \<times> string) list \<Rightarrow> string" where
  "store_text dir lead paths = lead @ concat (map (\<lambda>(hash, rest). dir @ ''/'' @ hash @ ''-'' @ rest) paths)"

text \<open>No store directory begins inside this text.\<close>

definition no_store_dir :: "string \<Rightarrow> string \<Rightarrow> bool" where
  "no_store_dir dir s \<longleftrightarrow> \<not> contains (s @ dir) (dir @ ''/'')"

lemma mask_ref_lead:
  assumes "pref \<noteq> []" "\<not> sublist pref (s @ butlast pref)"
  shows "mask_ref pref (s @ pref @ r) = s @ mask_ref pref (pref @ r)"
  using assms(2)
proof (induction s)
  case (Cons c s)
  have "\<not> prefix pref (c # s @ pref @ r)"
  proof
    assume "prefix pref (c # s @ pref @ r)"
    moreover have "prefix (c # s @ butlast pref) (c # s @ pref @ r)"
      by (simp add: prefixeq_butlast)
    ultimately have "prefix pref (c # s @ butlast pref)"
      by (rule prefix_length_prefix) simp
    then show False using Cons.prems by (metis append_Cons prefix_imp_sublist)
  qed
  moreover have "\<not> sublist pref (s @ butlast pref)"
    using Cons.prems by (simp add: sublist_Cons_right)
  ultimately show ?case using Cons.IH by (simp add: mask_ref_skip)
qed simp

lemma maskable_hash: "IsStoreHash h \<Longrightarrow> maskable (h @ CHR ''-'' # r)"
  by (auto simp: maskable_def IsStoreHash_def nth_append)

lemma MaskHashes_lead:
  "no_store_dir (st_dir st) s \<Longrightarrow> MaskHashes st (s @ st_dir st @ ''/'' @ r) = s @ MaskHashes st (st_dir st @ ''/'' @ r)"
  using mask_ref_lead [of "st_dir st @ ''/''" s r] by (simp add: MaskHashes_ref no_store_dir_def)

lemma MaskHashes_path:
  assumes "IsStoreHash h"
  shows "MaskHashes st (st_dir st @ ''/'' @ h @ ''-'' @ r) = st_dir st @ ''/*'' @ MaskHashes st (''-'' @ r)"
  using mask_ref_mask [of "st_dir st @ ''/''" "h @ CHR ''-'' # r"] maskable_hash [OF assms] assms
  by (simp add: MaskHashes_ref IsStoreHash_def)

lemma no_store_dir_absent: "no_store_dir (st_dir st) s \<Longrightarrow> MaskHashes st s = s"
  by (auto simp: MaskHashes_ref no_store_dir_def sublist_append intro!: mask_ref_absent)

lemma MaskHashes_store_text_from:
  assumes "list_all (\<lambda>(hash, rest). IsStoreHash hash \<and> no_store_dir (st_dir st) (''-'' @ rest)) paths"
    and "no_store_dir (st_dir st) lead"
  shows "MaskHashes st (store_text (st_dir st) lead paths) =
    lead @ concat (map (\<lambda>(hash, rest). st_dir st @ ''/*-'' @ rest) paths)"
  using assms
proof (induction paths arbitrary: lead)
  case Nil
  then show ?case by (simp add: store_text_def no_store_dir_absent)
next
  case (Cons p paths)
  obtain h rest where p: "p = (h, rest)" by fastforce
  have "store_text (st_dir st) lead (p # paths) =
      lead @ st_dir st @ ''/'' @ h @ ''-'' @ (rest @ store_text (st_dir st) [] paths)"
    by (simp add: store_text_def p)
  also have "MaskHashes st \<dots> = lead @ MaskHashes st (st_dir st @ ''/'' @ h @ ''-'' @ (rest @ store_text (st_dir st) [] paths))"
    by (rule MaskHashes_lead [OF Cons.prems(2)])
  also have "MaskHashes st (st_dir st @ ''/'' @ h @ ''-'' @ (rest @ store_text (st_dir st) [] paths)) =
      st_dir st @ ''/*'' @ MaskHashes st (''-'' @ (rest @ store_text (st_dir st) [] paths))"
    by (rule MaskHashes_path) (use Cons.prems(1) p in simp)
  also have "''-'' @ (rest @ store_text (st_dir st) [] paths) = store_text (st_dir st) (''-'' @ rest) paths"
    by (simp add: store_text_def)
  also have "MaskHashes st (store_text (st_dir st) (''-'' @ rest) paths) =
      (''-'' @ rest) @ concat (map (\<lambda>(hash, rest). st_dir st @ ''/*-'' @ rest) paths)"
    by (rule Cons.IH) (use Cons.prems(1) p in simp_all)
  finally show ?case by (simp add: p)
qed

text \<open>C21: masking makes a text independent of the hashes of the store paths in it, and of nothing else:
  every hash becomes a star, all other characters stay.  Two builds that mention the same packages under
  different hashes therefore form the same key.\<close>

theorem MaskHashes_store_text:
  assumes "list_all (\<lambda>(hash, hash', rest). IsStoreHash hash \<and> IsStoreHash hash' \<and>
      no_store_dir (st_dir st) (''-'' @ rest)) paths"
    and "no_store_dir (st_dir st) lead"
  shows "MaskHashes st (store_text (st_dir st) lead (map (\<lambda>(hash, hash', rest). (hash, rest)) paths)) =
      lead @ concat (map (\<lambda>(hash, hash', rest). st_dir st @ ''/*-'' @ rest) paths) \<and>
    MaskHashes st (store_text (st_dir st) lead (map (\<lambda>(hash, hash', rest). (hash', rest)) paths)) =
      lead @ concat (map (\<lambda>(hash, hash', rest). st_dir st @ ''/*-'' @ rest) paths)"
proof -
  let ?one = "map (\<lambda>(hash, hash', rest). (hash, rest)) paths"
    and ?two = "map (\<lambda>(hash, hash', rest). (hash', rest)) paths"
  have ok: "list_all (\<lambda>(hash, rest). IsStoreHash hash \<and> no_store_dir (st_dir st) (''-'' @ rest)) ?one"
    "list_all (\<lambda>(hash, rest). IsStoreHash hash \<and> no_store_dir (st_dir st) (''-'' @ rest)) ?two"
    using assms(1) by (induction paths) auto
  have masked: "map (\<lambda>(hash, rest). st_dir st @ ''/*-'' @ rest) ?one = map (\<lambda>(hash, hash', rest). st_dir st @ ''/*-'' @ rest) paths"
    "map (\<lambda>(hash, rest). st_dir st @ ''/*-'' @ rest) ?two = map (\<lambda>(hash, hash', rest). st_dir st @ ''/*-'' @ rest) paths"
    by (induction paths) auto
  show ?thesis
    using MaskHashes_store_text_from [OF ok(1) assms(2)] MaskHashes_store_text_from [OF ok(2) assms(2)]
    by (simp only: masked)
qed

theorem MaskHashes_store_text_witness:
  "MaskHashes nix_store (store_text ''/nix/store'' ''-I'' [(''0123456789abcdfghijklmnpqrsvwxyz'', ''zlib/include'')]) =
   ''-I/nix/store/*-zlib/include''"
  using MaskHashes_store_text [of nix_store
      "[(''0123456789abcdfghijklmnpqrsvwxyz'', ''00000000000000000000000000000000'', ''zlib/include'')]" "''-I''"]
  by (simp add: nix_store_def no_store_dir_def IsStoreHash_def kStoreHashLength_def
      is_store_hash_char_def sublist_code)

section \<open>The placeholder round trip\<close>

lemma SwapOutHash_loop_ref:
  assumes "old \<noteq> []" "length into = length old"
  shows "SwapOutHash_loop old into (pre @ s) (length pre) = pre @ replace_ref old into s"
proof (induction s arbitrary: pre rule: length_induct)
  case (1 s)
  show ?case
  proof (cases "find_str old s")
    case None
    then show ?thesis
      using assms find_str_None [of old s]
      by (subst SwapOutHash_loop.simps) (simp add: str_simps replace_ref_absent)
  next
    case (Some p)
    let ?rest = "drop (p + length old) s" and ?out = "pre @ take p s @ into"
    have p: "p \<le> length s" "p + length old \<le> length s" using find_str_Some [OF Some] by auto
    have "length ?rest < length s" using assms(1) p by (cases old) auto
    then have IH: "SwapOutHash_loop old into (?out @ ?rest) (length ?out) = ?out @ replace_ref old into ?rest"
      using 1 by blast
    have "SwapOutHash_loop old into (pre @ s) (length pre) =
        SwapOutHash_loop old into (?out @ ?rest) (length ?out)"
      using assms by (subst SwapOutHash_loop.simps)
        (simp add: Some str_simps, simp add: replace_at_def min_absorb2 p add.assoc)
    with IH show ?thesis
      using replace_ref_find [OF assms(1) Some, of into] by simp
  qed
qed

lemma length_kOutPlaceholder [simp]: "length kOutPlaceholder = kStoreHashLength"
  by (simp add: kOutPlaceholder_def)

lemma out_pattern_not_Nil [simp]: "out_pattern st h \<noteq> []"
  by (simp add: out_pattern_def)

lemma length_out_pattern: "length (out_pattern st h) = length (st_dir st) + length h + 2"
  by (simp add: out_pattern_def)

lemma SwapOutHash_ref:
  assumes "length (st_out_hash st) = kStoreHashLength"
  shows "MaskOut st s = replace_ref (out_pattern st (st_out_hash st)) (out_pattern st kOutPlaceholder) s"
    and "UnmaskOut st s = replace_ref (out_pattern st kOutPlaceholder) (out_pattern st (st_out_hash st)) s"
  using assms SwapOutHash_loop_ref [of _ _ "[]" s]
  by (auto simp: MaskOut_def UnmaskOut_def SwapOutHash_def Let_def length_out_pattern kStoreHashLength_def)

lemma MaskOut_no_hash [simp]: "st_out_hash st = [] \<Longrightarrow> MaskOut st s = s"
  and UnmaskOut_no_hash [simp]: "st_out_hash st = [] \<Longrightarrow> UnmaskOut st s = s"
  by (simp_all add: MaskOut_def UnmaskOut_def SwapOutHash_def)

text \<open>What every store the program builds satisfies: the own hash is absent or has the full width, and
  each known root is filed under its masked spelling, once.\<close>

definition store_wf :: "store \<Rightarrow> bool" where
  "store_wf st \<longleftrightarrow> (st_out_hash st = [] \<or> length (st_out_hash st) = kStoreHashLength) \<and>
     distinct (map fst (st_masked_to_real st)) \<and>
     list_all (\<lambda>(masked, real). MaskHashes st real = masked \<and> masked \<noteq> real) (st_masked_to_real st)"

lemma MaskHashes_dir [simp]:
  "MaskHashes (st_masked_to_real_update f st) = MaskHashes st"
  "MaskHashes (st_known_ids_update g st) = MaskHashes st"
  "MaskHashes (st_out_hash_update h st) = MaskHashes st"
  by (simp_all add: MaskHashes_def fun_eq_iff)

lemma emplace_keys:
  "map_of m k = None \<Longrightarrow> emplace m k v = m @ [(k, v)]"
  "map_of m k \<noteq> None \<Longrightarrow> emplace m k v = m"
  by (simp_all add: emplace_def)

lemma add_root_wf: "store_wf st \<Longrightarrow> store_wf (add_root st root)"
  by (cases "map_of (st_masked_to_real st) (MaskHashes st (store_root (st_dir st) root))")
    (auto simp: store_wf_def add_root_def Let_def emplace_keys map_of_eq_None_iff)

lemma add_root_fields [simp]:
  "st_dir (add_root st root) = st_dir st" "st_out (add_root st root) = st_out st"
  "st_out_hash (add_root st root) = st_out_hash st" "st_by_content (add_root st root) = st_by_content st"
  "st_known_ids (add_root st root) = st_known_ids st"
  by (simp_all add: add_root_def Let_def)

lemma foldl_add_root_wf: "store_wf st \<Longrightarrow> store_wf (foldl add_root st roots)"
  by (induction roots arbitrary: st) (simp_all add: add_root_wf)

lemma RememberIdentity_wf: "store_wf st \<Longrightarrow> store_wf (RememberIdentity st path identity)"
  by (simp add: store_wf_def RememberIdentity_def)

lemma Store_bare_wf: "store_wf (Store_bare dir env)"
  by (auto simp: Store_bare_def store_wf_def Let_def)

lemma Store_init_invariant: "store_wf (Store_init dir env)"
  by (simp add: Store_init_def Let_def Store_bare_wf foldl_add_root_wf del: foldl_append)

lemma foldl_add_root_fields [simp]:
  "st_dir (foldl add_root st roots) = st_dir st" "st_out_hash (foldl add_root st roots) = st_out_hash st"
  "st_out (foldl add_root st roots) = st_out st" "st_by_content (foldl add_root st roots) = st_by_content st"
  "st_known_ids (foldl add_root st roots) = st_known_ids st"
  by (induction roots arbitrary: st) simp_all

text \<open>The constructor establishes the store invariant for every environment, and remembering a
  daemon's answer keeps it.\<close>

theorem Store_init_wf:
  "store_wf (Store_init dir env) \<and> store_wf (RememberIdentity (Store_init dir env) path identity)"
  by (simp add: Store_init_invariant RememberIdentity_wf)

lemma MaskOut_length: "store_wf st \<Longrightarrow> length (MaskOut st s) = length s"
  by (cases "st_out_hash st = []")
    (auto simp: store_wf_def SwapOutHash_ref length_out_pattern intro!: length_replace_ref)

text \<open>Bytes that survive the trip through the cache: they do not hold the placeholder already.\<close>

definition storable :: "store \<Rightarrow> string \<Rightarrow> bool" where
  "storable st bs \<longleftrightarrow> store_wf st \<and> CHR ''-'' \<notin> set (st_dir st) \<and> \<not> contains bs (out_pattern st kOutPlaceholder)"

lemma UnmaskOut_storable:
  assumes "storable st bs"
  shows "UnmaskOut st (MaskOut st bs) = bs"
proof (cases "st_out_hash st = []")
  case False
  let ?w = "st_dir st @ ''/'' @ kOutPlaceholder"
  have len: "length (st_out_hash st) = kStoreHashLength" using assms False by (simp add: storable_def store_wf_def)
  have pat: "out_pattern st kOutPlaceholder = ?w @ [CHR ''-'']" by (simp add: out_pattern_def)
  have "CHR ''-'' \<notin> set ?w" using assms by (auto simp: storable_def kOutPlaceholder_def)
  moreover have "\<not> sublist (?w @ [CHR ''-'']) bs" using assms pat by (simp add: storable_def)
  ultimately have "replace_ref (?w @ [CHR ''-'']) (out_pattern st (st_out_hash st))
      (replace_ref (out_pattern st (st_out_hash st)) (?w @ [CHR ''-'']) bs) = bs"
    by (intro replace_ref_inverse) simp_all
  then show ?thesis by (simp add: SwapOutHash_ref [OF len] pat del: append_assoc)
qed simp

text \<open>C20: an object stored under the placeholder comes back byte for byte: swapping the own output hash
  out and in again is the identity on every byte string that does not hold the placeholder, and neither
  swap moves a byte.\<close>

theorem UnmaskOut_MaskOut:
  assumes "store_wf st" "CHR ''-'' \<notin> set (st_dir st)"
    and "\<not> contains bs (out_pattern st kOutPlaceholder)"
  shows "UnmaskOut st (MaskOut st bs) = bs \<and> length (MaskOut st bs) = length bs"
  using assms UnmaskOut_storable MaskOut_length by (simp add: storable_def)

definition demo_store :: store where
  "demo_store = Store_init ''/nix/store'' [''JIG_STORE_IDENTITY'' \<mapsto> ''content'',
     ''out'' \<mapsto> ''/nix/store/0123456789abcdfghijklmnpqrsvwxyz-hello'']"

lemma demo_store_fields:
  "st_dir demo_store = ''/nix/store''" "st_out_hash demo_store = ''0123456789abcdfghijklmnpqrsvwxyz''"
  by (simp_all add: demo_store_def Store_init_def Store_bare_def Env_def IsStorePath_def Let_def
      kStoreHashLength_def substr_def str_simps)

theorem UnmaskOut_MaskOut_witness:
  "UnmaskOut demo_store (MaskOut demo_store ''P=/nix/store/0123456789abcdfghijklmnpqrsvwxyz-hello/etc'') =
   ''P=/nix/store/0123456789abcdfghijklmnpqrsvwxyz-hello/etc''"
  using UnmaskOut_MaskOut [of demo_store "''P=/nix/store/0123456789abcdfghijklmnpqrsvwxyz-hello/etc''"]
  by (simp add: demo_store_fields Store_init_invariant [of "''/nix/store''" "[''JIG_STORE_IDENTITY'' \<mapsto> ''content'',
     ''out'' \<mapsto> ''/nix/store/0123456789abcdfghijklmnpqrsvwxyz-hello'']", folded demo_store_def]
     out_pattern_def kOutPlaceholder_def kStoreHashLength_def sublist_code numeral_eq_Suc)

end
