(* ===== verification/Store_Replay.thy ===== *)
theory Store_Replay
  imports Store
begin

text \<open>
  The way back from a masked text: \<open>Resolve\<close> on one path and \<open>ResolveAll\<close> on a text with many.  A
  text is a lead and a list of store paths, each with the hash or the star it carries, its package name
  and what follows the name; resolving replaces the star of every package this build knows by this
  build's hash and touches nothing else.
\<close>

section \<open>One path\<close>

definition store_path :: "string \<Rightarrow> string \<Rightarrow> string \<Rightarrow> string" where
  "store_path dir mark rest = dir @ ''/'' @ mark @ ''-'' @ rest"

lemma MaskHashes_store_path:
  assumes "IsStoreHash h" "no_store_dir (st_dir st) (''-'' @ rest)"
  shows "MaskHashes st (store_path (st_dir st) h rest) = store_path (st_dir st) ''*'' rest"
  using MaskHashes_path [OF assms(1), of st rest] no_store_dir_absent [OF assms(2)]
  by (simp add: store_path_def)

lemma Resolve_masked:
  assumes "IsStoreHash h" "no_store_dir (st_dir st) (''-'' @ name @ sub)"
    and "slash \<notin> set name" "sub = [] \<or> hd sub = slash"
    and "map_of (st_masked_to_real st) (store_path (st_dir st) ''*'' name) = Some root"
  shows "Resolve st (MaskHashes st (store_path (st_dir st) h (name @ sub))) = Some (root @ sub)"
proof -
  let ?pre = "st_dir st @ ''/*-''"
  let ?path = "?pre @ name @ sub"
  have masked: "MaskHashes st (store_path (st_dir st) h (name @ sub)) = ?path"
    using MaskHashes_store_path [OF assms(1,2)] by (simp add: store_path_def)
  have len: "length ?pre = length (st_dir st) + 3" by simp
  have "find_from ?path ''/'' (length (st_dir st) + 3) =
      map_option ((+) (length (st_dir st) + 3)) (find_str ''/'' (name @ sub))"
    using find_from_append [of ?pre "name @ sub" "''/''"] unfolding len .
  also have "find_str ''/'' (name @ sub) = (if sub = [] then None else Some (length name))"
    using assms(3,4) by (cases sub) (auto simp: find_str_char find_str_char_absent)
  finally have sl: "find_from ?path ''/'' (length (st_dir st) + 3) =
      (if sub = [] then None else Some (length (?pre @ name)))" by simp
  have "starts_with ?path ?pre" "?path = (?pre @ name) @ sub" by simp_all
  then have cut: "take (length (?pre @ name)) ?path = ?pre @ name" "drop (length (?pre @ name)) ?path = sub"
    by (metis append_eq_conv_conj)+
  show ?thesis
    using assms(5) cut unfolding masked Resolve_def sl by (cases "sub = []") (simp_all add: store_path_def)
qed

text \<open>A path stored by one build resolves in another to that build's own copy of the package: the
  mask of the path, looked up among the build's roots, is the path below the root filed under it.\<close>

theorem Resolve_MaskHashes:
  assumes "IsStoreHash h" "no_store_dir (st_dir st) (''-'' @ name @ sub)"
    and "slash \<notin> set name" "sub = [] \<or> hd sub = slash"
    and "map_of (st_masked_to_real st) (store_path (st_dir st) ''*'' name) = Some root"
  shows "Resolve st (MaskHashes st (store_path (st_dir st) h (name @ sub))) = Some (root @ sub)"
  by (rule Resolve_masked [OF assms])

theorem Resolve_MaskHashes_witness:
  "Resolve demo_store (MaskHashes demo_store
      (store_path ''/nix/store'' ''00000000000000000000000000000000'' ''hello/bin'')) =
   Some ''/nix/store/0123456789abcdfghijklmnpqrsvwxyz-hello/bin''"
proof -
  have "map_of (st_masked_to_real demo_store) (store_path ''/nix/store'' ''*'' ''hello'') =
      Some ''/nix/store/0123456789abcdfghijklmnpqrsvwxyz-hello''"
    by code_simp
  then show ?thesis
    using Resolve_MaskHashes [of "''00000000000000000000000000000000''" demo_store "''hello''" "''/bin''"]
    by (simp add: demo_store_fields IsStoreHash_def kStoreHashLength_def is_store_hash_char_def
        no_store_dir_def sublist_code)
qed

section \<open>The loop over one root\<close>

definition boundary :: "string \<Rightarrow> bool" where
  "boundary r \<longleftrightarrow> r = [] \<or> hd r = slash \<or> hd r \<in> set kPathEnds"

fun resolve_ref :: "string \<Rightarrow> string \<Rightarrow> string \<Rightarrow> string" where
  "resolve_ref masked real [] = []"
| "resolve_ref masked real (c # cs) =
     (if masked \<noteq> [] \<and> prefix masked (c # cs) then
        (let r = drop (length masked - 1) cs in
         (if boundary r then real else masked) @ resolve_ref masked real r)
      else c # resolve_ref masked real cs)"

lemma resolve_ref_match:
  "masked \<noteq> [] \<Longrightarrow>
   resolve_ref masked real (masked @ r) = (if boundary r then real else masked) @ resolve_ref masked real r"
  by (cases masked) auto

lemma resolve_ref_skip:
  assumes "\<And>k. k < length u \<Longrightarrow> \<not> prefix masked (drop k (u @ v))"
  shows "resolve_ref masked real (u @ v) = u @ resolve_ref masked real v"
  using assms
proof (induction u)
  case (Cons c u)
  have "\<not> prefix masked (c # u @ v)" using Cons.prems [of 0] by simp
  moreover have "\<not> prefix masked (drop k (u @ v))" if "k < length u" for k
    using Cons.prems [of "Suc k"] that by simp
  ultimately show ?case using Cons.IH by simp
qed simp

lemma resolve_ref_absent: "\<not> sublist masked s \<Longrightarrow> resolve_ref masked real s = s"
  by (induction s) (auto simp: sublist_Cons_right)

lemma resolve_ref_found:
  assumes "masked \<noteq> []" "find_str masked s = Some p" "r = drop (p + length masked) s"
  shows "resolve_ref masked real s =
    take p s @ (if boundary r then real else masked) @ resolve_ref masked real r"
proof -
  have s: "s = take p s @ masked @ r" "p \<le> length s"
    using find_str_decomp [OF assms(2)] find_str_Some [OF assms(2)] assms(3) by auto
  have "resolve_ref masked real (take p s @ masked @ r) = take p s @ resolve_ref masked real (masked @ r)"
    using find_str_first [OF assms(2)] s by (intro resolve_ref_skip) (simp add: min_absorb2)
  then show ?thesis using s(1) resolve_ref_match [OF assms(1), of real r] by metis
qed

lemma ResolveAll_loop_ref:
  assumes "masked \<noteq> []"
  shows "ResolveAll_loop masked real (pre @ s) (length pre) = pre @ resolve_ref masked real s"
proof (induction s arbitrary: pre rule: length_induct)
  case (1 s)
  show ?case
  proof (cases "find_str masked s")
    case None
    then show ?thesis
      using assms find_str_None [of masked s]
      by (subst ResolveAll_loop.simps) (simp add: str_simps resolve_ref_absent)
  next
    case (Some p)
    define r where "r = drop (p + length masked) s"
    define out where "out = pre @ take p s @ (if boundary r then real else masked)"
    have p: "p \<le> length s" "p + length masked \<le> length s" using find_str_Some [OF Some] by auto
    have "length r < length s" using assms p by (cases masked) (auto simp: r_def)
    then have IH: "ResolveAll_loop masked real (out @ r) (length out) = out @ resolve_ref masked real r"
      using 1 by blast
    have s: "s = take p s @ masked @ r" using find_str_decomp [OF Some] by (simp add: r_def)
    let ?e = "length pre + p + length masked"
    have e: "?e < length (pre @ s) \<and> (pre @ s) ! ?e \<noteq> slash \<and> (pre @ s) ! ?e \<notin> set kPathEnds \<longleftrightarrow> \<not> boundary r"
      using p by (auto simp: boundary_def r_def nth_append hd_drop_conv_nth add.assoc)
    have "ResolveAll_loop masked real (pre @ s) (length pre) = ResolveAll_loop masked real (out @ r) (length out)"
    proof (cases "boundary r")
      case True
      then show ?thesis
        using assms e by (subst ResolveAll_loop.simps)
          (simp add: Some find_from_append Let_def out_def r_def, simp add: replace_at_def p min_absorb2 add.assoc, blast)
    next
      case False
      then have "out @ r = pre @ s" using s by (simp add: out_def)
      then show ?thesis
        using assms e False p by (subst ResolveAll_loop.simps)
          (simp add: Some find_from_append Let_def, simp add: out_def min_absorb2 add.assoc)
    qed
    with IH show ?thesis
      using resolve_ref_found [OF assms Some r_def, of real] by (simp add: out_def)
  qed
qed

section \<open>A text with store paths\<close>

type_synonym path_item = "string \<times> string \<times> string"

fun item_text :: "string \<Rightarrow> path_item \<Rightarrow> string" where
  "item_text dir (mark, name, tail) = store_path dir mark (name @ tail)"

definition items_text :: "string \<Rightarrow> path_item list \<Rightarrow> string" where
  "items_text dir items = concat (map (item_text dir) items)"

definition name_ok :: "string \<Rightarrow> bool" where
  "name_ok n \<longleftrightarrow> list_all (\<lambda>c. c \<noteq> slash \<and> c \<notin> set kPathEnds) n"

fun item_ok :: "string \<Rightarrow> path_item \<Rightarrow> bool" where
  "item_ok dir (mark, name, tail) \<longleftrightarrow> (mark = ''*'' \<or> IsStoreHash mark) \<and> name_ok name \<and> boundary tail \<and>
     no_store_dir dir (name @ tail)"

definition dir_ok :: "string \<Rightarrow> bool" where
  "dir_ok dir \<longleftrightarrow> dir \<noteq> [] \<and> hd dir = slash \<and> CHR ''-'' \<notin> set dir \<and> CHR ''*'' \<notin> set dir"

fun set_mark :: "string \<Rightarrow> string \<Rightarrow> path_item \<Rightarrow> path_item" where
  "set_mark N H (mark, name, tail) = (if mark = ''*'' \<and> name = N then H else mark, name, tail)"

lemma prefix_nth: "prefix p s \<Longrightarrow> i < length p \<Longrightarrow> s ! i = p ! i"
  by (auto simp: prefix_def nth_append)

lemma no_store_dir_suffix: "no_store_dir dir (a @ b) \<Longrightarrow> no_store_dir dir b"
  by (auto simp: no_store_dir_def sublist_append)

lemma store_path_prefix: "prefix (store_path dir m r) s \<Longrightarrow> prefix (dir @ ''/'') s"
  by (auto simp: store_path_def prefix_def)

lemma slash_not_hash: "IsStoreHash m \<Longrightarrow> slash \<notin> set m \<and> m \<noteq> [] \<and> hd m \<noteq> CHR ''*''"
  by (cases m) (auto simp: IsStoreHash_def list_all_iff is_store_hash_char_def kStoreHashLength_def)

lemma resolve_ref_lead:
  assumes "no_store_dir dir lead" "rest = [] \<or> prefix (dir @ ''/'') rest"
  shows "resolve_ref (store_path dir m r) real (lead @ rest) = lead @ resolve_ref (store_path dir m r) real rest"
proof (rule resolve_ref_skip)
  fix k assume k: "k < length lead"
  show "\<not> prefix (store_path dir m r) (drop k (lead @ rest))"
  proof
    assume "prefix (store_path dir m r) (drop k (lead @ rest))"
    then have pre: "prefix (dir @ ''/'') (drop k lead @ rest)"
      using store_path_prefix k by (metis drop_append diff_is_0_eq drop0 less_imp_le)
    have "prefix (dir @ ''/'') (drop k lead @ dir)"
    proof (cases "rest = []")
      case True
      then show ?thesis using pre by (metis append_Nil2 prefix_prefix)
    next
      case False
      then have "prefix (drop k lead @ dir) (drop k lead @ rest)"
        using assms(2) by (auto simp: prefix_def)
      with pre show ?thesis by (rule prefix_length_prefix) (use k in simp)
    qed
    then have "sublist (dir @ ''/'') (lead @ dir)"
      by (metis append.assoc append_take_drop_id prefix_imp_sublist sublist_append_leftI sublist_order.dual_order.trans)
    with assms(1) show False by (simp add: no_store_dir_def)
  qed
qed

lemma resolve_ref_mark:
  assumes "CHR ''-'' \<notin> set dir" "slash \<notin> set mark"
    and "\<not> prefix (store_path dir m r) (store_path dir mark v)"
  shows "resolve_ref (store_path dir m r) real (store_path dir mark v) =
    dir @ ''/'' @ mark @ ''-'' @ resolve_ref (store_path dir m r) real v"
proof -
  let ?u = "dir @ ''/'' @ mark @ ''-''"
  have "resolve_ref (store_path dir m r) real (?u @ v) = ?u @ resolve_ref (store_path dir m r) real v"
  proof (rule resolve_ref_skip, rule notI)
    fix k assume k: "k < length ?u" and pre: "prefix (store_path dir m r) (drop k (?u @ v))"
    have "k \<noteq> 0"
    proof
      assume "k = 0"
      with pre assms(3) show False by (simp add: store_path_def)
    qed
    have at: "(?u @ v) ! (k + i) = (dir @ ''/'') ! i" if "i \<le> length dir" for i
      using prefix_nth [OF store_path_prefix [OF pre], of i] that k nth_drop [of k "?u @ v" i]
      by (simp del: drop_append)
    show False
    proof (cases "k \<le> length mark")
      case True
      then have "mark ! (k - 1) = slash"
        using at [of "length dir"] \<open>k \<noteq> 0\<close> by (cases k) (simp_all add: nth_append)
      then show False using assms(2) True \<open>k \<noteq> 0\<close> by (metis Suc_diff_1 Suc_le_lessD neq0_conv nth_mem)
    next
      case False
      let ?i = "length dir + 1 + length mark - k"
      have "(?u @ v) ! (k + ?i) = CHR ''-''" using k False by (simp add: nth_append)
      then have "(dir @ ''/'') ! ?i = CHR ''-''" using at [of ?i] False k by simp
      moreover have "?i < length (dir @ ''/'')" using False by simp
      ultimately have "CHR ''-'' \<in> set (dir @ ''/'')" by (metis nth_mem)
      then show False using assms(1) by simp
    qed
  qed
  then show ?thesis by (simp add: store_path_def)
qed

lemma items_text_boundary:
  "dir_ok dir \<Longrightarrow> boundary tail \<Longrightarrow> boundary (tail @ items_text dir items)"
proof (cases items)
  case (Cons i items')
  assume "dir_ok dir" "boundary tail"
  then show ?thesis using Cons by (cases i) (auto simp: boundary_def items_text_def store_path_def dir_ok_def hd_append)
qed (simp add: items_text_def)

lemma items_text_start: "items_text dir items = [] \<or> prefix (dir @ ''/'') (items_text dir items)"
proof (cases items)
  case (Cons i items')
  then show ?thesis by (cases i) (auto simp: items_text_def store_path_def)
qed (simp add: items_text_def)

lemma items_text_Cons:
  "items_text dir ((mark, name, tail) # items) = store_path dir mark (name @ tail @ items_text dir items)"
  by (simp add: items_text_def store_path_def)

lemma name_prefix_cases:
  assumes "name_ok N" "boundary rest" "prefix N (name @ rest)"
  obtains name' where "name = N @ name'"
proof -
  from assms(3) obtain r where "name @ rest = N @ r" by (auto simp: prefix_def)
  then consider us where "name = N @ us" | us where "N = name @ us" "rest = us @ r"
    by (auto simp: append_eq_append_conv2)
  then show ?thesis
  proof cases
    case 2
    then have "us = []" using assms(1,2) by (cases us) (auto simp: name_ok_def boundary_def)
    then show ?thesis using that 2 by simp
  qed (use that in blast)
qed

lemma star_mark: "item_ok dir (mark, name, tail) \<Longrightarrow> prefix (store_path dir ''*'' N) (store_path dir mark v) \<Longrightarrow>
    mark = ''*'' \<and> prefix N v"
  using slash_not_hash [of mark] by (cases mark) (auto simp: store_path_def)

lemma resolve_ref_items:
  assumes "dir_ok dir" "name_ok N" "list_all (item_ok dir) items" "no_store_dir dir lead"
  shows "resolve_ref (store_path dir ''*'' N) (store_path dir H N) (lead @ items_text dir items) =
    lead @ items_text dir (map (set_mark N H) items)"
  using assms(3,4)
proof (induction items arbitrary: lead)
  case Nil
  then show ?case
    using resolve_ref_lead [of dir lead "[]"] by (simp add: items_text_def)
next
  case (Cons i items)
  obtain mark name tail where i: "i = (mark, name, tail)" by (cases i) auto
  let ?M = "store_path dir ''*'' N" and ?R = "store_path dir H N" and ?T = "items_text dir items"
  let ?v = "name @ tail @ ?T"
  have ok: "item_ok dir (mark, name, tail)" and bnd: "boundary (tail @ ?T)"
    using Cons.prems i items_text_boundary [OF assms(1)] by auto
  have lead: "resolve_ref ?M ?R (lead @ store_path dir mark ?v) = lead @ resolve_ref ?M ?R (store_path dir mark ?v)"
    by (rule resolve_ref_lead [OF Cons.prems(2)]) (simp add: store_path_def)
  have IH: "resolve_ref ?M ?R (l @ ?T) = l @ items_text dir (map (set_mark N H) items)"
    if "no_store_dir dir l" for l
    using Cons that by simp
  have tl: "no_store_dir dir (name @ tail)" using ok by simp
  have "resolve_ref ?M ?R (store_path dir mark ?v) =
      store_path dir (if mark = ''*'' \<and> name = N then H else mark) (name @ tail @ items_text dir (map (set_mark N H) items))"
  proof (cases "prefix ?M (store_path dir mark ?v)")
    case True
    then have mark: "mark = ''*''" and "prefix N ?v" using star_mark [OF ok] by auto
    then obtain name' where name: "name = N @ name'" using name_prefix_cases [OF assms(2) bnd] by blast
    have M: "store_path dir mark ?v = ?M @ ((name' @ tail) @ ?T)" using mark name by (simp add: store_path_def)
    have "boundary ((name' @ tail) @ ?T) \<longleftrightarrow> name' = []"
      using bnd ok name by (cases name') (auto simp: boundary_def name_ok_def)
    then show ?thesis
      unfolding M using IH [of "name' @ tail"] no_store_dir_suffix [of dir N "name' @ tail"] tl mark name
      by (subst resolve_ref_match) (auto simp: store_path_def)
  next
    case False
    then have "\<not> (mark = ''*'' \<and> name = N)" by (auto simp: store_path_def)
    moreover have "slash \<notin> set mark" using ok slash_not_hash by auto
    ultimately show ?thesis
      using resolve_ref_mark [OF _ _ False, of ?R] assms(1) IH [OF tl] by (auto simp: dir_ok_def store_path_def)
  qed
  with lead show ?case by (simp add: i items_text_Cons)
qed

section \<open>All roots\<close>

definition root_entry :: "string \<Rightarrow> string \<times> string \<Rightarrow> string \<times> string" where
  "root_entry dir = (\<lambda>(name, hash). (store_path dir ''*'' name, store_path dir hash name))"

fun root_mark :: "(string \<times> string) list \<Rightarrow> path_item \<Rightarrow> path_item" where
  "root_mark roots (mark, name, tail) =
     (if mark = ''*'' then (case map_of roots name of Some hash \<Rightarrow> hash | None \<Rightarrow> ''*'') else mark, name, tail)"

lemma set_mark_ok: "IsStoreHash H \<Longrightarrow> item_ok dir i \<Longrightarrow> item_ok dir (set_mark N H i)"
  by (cases i) simp

lemma root_mark_Cons:
  assumes "IsStoreHash H"
  shows "root_mark ((N, H) # roots) i = root_mark roots (set_mark N H i)"
  using slash_not_hash [OF assms] by (cases i) auto

lemma resolve_fold:
  assumes "dir_ok dir" "list_all (\<lambda>(name, hash). name_ok name \<and> IsStoreHash hash) roots"
    and "list_all (item_ok dir) items" "no_store_dir dir lead"
  shows "foldl (\<lambda>s (masked, real). ResolveAll_loop masked real s 0) (lead @ items_text dir items)
      (map (root_entry dir) roots) = lead @ items_text dir (map (root_mark roots) items)"
  using assms(2,3)
proof (induction roots arbitrary: items)
  case Nil
  have "map (root_mark []) items = items" by (rule map_idI) auto
  then show ?case by simp
next
  case (Cons r roots)
  obtain N H where r: "r = (N, H)" by fastforce
  have H: "IsStoreHash H" and N: "name_ok N" using Cons.prems r by auto
  have "ResolveAll_loop (store_path dir ''*'' N) (store_path dir H N) (lead @ items_text dir items) 0 =
      lead @ items_text dir (map (set_mark N H) items)"
    using ResolveAll_loop_ref [of "store_path dir ''*'' N" _ "[]"] resolve_ref_items [OF assms(1) N Cons.prems(2) assms(4)]
    by (simp add: store_path_def)
  moreover have "list_all (item_ok dir) (map (set_mark N H) items)"
    using Cons.prems(2) set_mark_ok [OF H] by (auto simp: list_all_iff)
  ultimately show ?case
    using Cons.IH [of "map (set_mark N H) items"] Cons.prems r
    by (simp add: root_entry_def root_mark_Cons [OF H] comp_def)
qed

lemma no_store_dir_dash: "dir_ok dir \<Longrightarrow> no_store_dir dir s \<Longrightarrow> no_store_dir dir (''-'' @ s)"
  by (cases dir) (auto simp: no_store_dir_def dir_ok_def sublist_Cons_right)

lemma MaskHashes_items:
  assumes "dir_ok (st_dir st)" "list_all (\<lambda>(h, n, t). IsStoreHash h \<and> item_ok (st_dir st) (h, n, t)) items"
    and "no_store_dir (st_dir st) lead"
  shows "MaskHashes st (lead @ items_text (st_dir st) items) =
    lead @ items_text (st_dir st) (map (\<lambda>(h, n, t). (''*'', n, t)) items)"
proof -
  let ?paths = "map (\<lambda>(h, n, t). (h, n @ t)) items"
  have "list_all (\<lambda>(hash, rest). IsStoreHash hash \<and> no_store_dir (st_dir st) (''-'' @ rest)) ?paths"
    using assms(2) no_store_dir_dash [OF assms(1)] by (auto simp: list_all_iff)
  moreover have "lead @ items_text (st_dir st) items = store_text (st_dir st) lead ?paths"
    by (induction items) (auto simp: store_text_def items_text_def store_path_def)
  moreover have "lead @ concat (map (\<lambda>(hash, rest). st_dir st @ ''/*-'' @ rest) ?paths) =
      lead @ items_text (st_dir st) (map (\<lambda>(h, n, t). (''*'', n, t)) items)"
    by (induction items) (auto simp: items_text_def store_path_def)
  ultimately show ?thesis using MaskHashes_store_text_from assms(3) by metis
qed

text \<open>C9: replaying a text rewrites it to this build's packages: whatever hashes the store paths carried
  when the text was stored, every package among the build's roots gets the build's hash, every other one is
  left masked, and the text between the paths is unchanged.\<close>

theorem ResolveAll_items:
  assumes "dir_ok (st_dir st)" "st_masked_to_real st = map (root_entry (st_dir st)) roots"
    and "list_all (\<lambda>(name, hash). name_ok name \<and> IsStoreHash hash) roots"
    and "list_all (\<lambda>(h, n, t). IsStoreHash h \<and> item_ok (st_dir st) (h, n, t)) items"
    and "no_store_dir (st_dir st) lead"
  shows "ResolveAll st (lead @ items_text (st_dir st) items) = lead @ items_text (st_dir st)
    (map (\<lambda>(h, n, t). (case map_of roots n of Some hash \<Rightarrow> hash | None \<Rightarrow> ''*'', n, t)) items)"
proof -
  let ?masked = "map (\<lambda>(h, n, t). (''*'', n, t)) items"
  have "list_all (item_ok (st_dir st)) ?masked" using assms(4) by (auto simp: list_all_iff)
  then have "ResolveAll st (lead @ items_text (st_dir st) items) =
      lead @ items_text (st_dir st) (map (root_mark roots) ?masked)"
    using resolve_fold [OF assms(1,3) _ assms(5)] MaskHashes_items [OF assms(1,4,5)]
    by (simp add: ResolveAll_def assms(2))
  also have "map (root_mark roots) ?masked =
      map (\<lambda>(h, n, t). (case map_of roots n of Some hash \<Rightarrow> hash | None \<Rightarrow> ''*'', n, t)) items"
    by auto
  finally show ?thesis .
qed

theorem ResolveAll_items_witness:
  "ResolveAll (nix_store\<lparr>st_masked_to_real :=
      [(''/nix/store/*-zlib'', ''/nix/store/0123456789abcdfghijklmnpqrsvwxyz-zlib'')]\<rparr>)
     ''x.o: /nix/store/00000000000000000000000000000000-zlib/zlib.h /nix/store/00000000000000000000000000000000-zlib-ng/z.h'' =
   ''x.o: /nix/store/0123456789abcdfghijklmnpqrsvwxyz-zlib/zlib.h /nix/store/*-zlib-ng/z.h''"
  using ResolveAll_items [of "nix_store\<lparr>st_masked_to_real :=
      [(''/nix/store/*-zlib'', ''/nix/store/0123456789abcdfghijklmnpqrsvwxyz-zlib'')]\<rparr>"
      "[(''zlib'', ''0123456789abcdfghijklmnpqrsvwxyz'')]"
      "[(''00000000000000000000000000000000'', ''zlib'', ''/zlib.h ''), (''00000000000000000000000000000000'', ''zlib-ng'', ''/z.h'')]"
      "''x.o: ''"]
  by (simp add: nix_store_def dir_ok_def root_entry_def store_path_def name_ok_def kPathEnds_def
      IsStoreHash_def kStoreHashLength_def is_store_hash_char_def boundary_def no_store_dir_def sublist_code
      items_text_def)

end
