(* ===== verification/Sha256.thy ===== *)
theory Sha256
  imports Store_Replay "HOL-Library.Word"
begin

unbundle bit_operations_syntax

text \<open>
  The first half of \<open>nix_store_mode.cc\<close>: SHA-256 over 32-bit words, the base-32 spelling of Nix, and the
  store paths defined over them.  The lemmas relate the block loop with its tail buffer to the padding of
  the standard, and the base-32 digits to the number the bytes spell.
\<close>

section \<open>SHA-256\<close>

type_synonym state32 = "32 word list"

definition kRoundConstants :: "32 word list" where
  "kRoundConstants = concat [
     [0x428a2f98, 0x71374491, 0xb5c0fbcf, 0xe9b5dba5, 0x3956c25b, 0x59f111f1, 0x923f82a4, 0xab1c5ed5],
     [0xd807aa98, 0x12835b01, 0x243185be, 0x550c7dc3, 0x72be5d74, 0x80deb1fe, 0x9bdc06a7, 0xc19bf174],
     [0xe49b69c1, 0xefbe4786, 0x0fc19dc6, 0x240ca1cc, 0x2de92c6f, 0x4a7484aa, 0x5cb0a9dc, 0x76f988da],
     [0x983e5152, 0xa831c66d, 0xb00327c8, 0xbf597fc7, 0xc6e00bf3, 0xd5a79147, 0x06ca6351, 0x14292967],
     [0x27b70a85, 0x2e1b2138, 0x4d2c6dfc, 0x53380d13, 0x650a7354, 0x766a0abb, 0x81c2c92e, 0x92722c85],
     [0xa2bfe8a1, 0xa81a664b, 0xc24b8b70, 0xc76c51a3, 0xd192e819, 0xd6990624, 0xf40e3585, 0x106aa070],
     [0x19a4c116, 0x1e376c08, 0x2748774c, 0x34b0bcb5, 0x391c0cb3, 0x4ed8aa4a, 0x5b9cca4f, 0x682e6ff3],
     [0x748f82ee, 0x78a5636f, 0x84c87814, 0x8cc70208, 0x90befffa, 0xa4506ceb, 0xbef9a3f7, 0xc67178f2]]"

definition kInitialState :: state32 where
  "kInitialState = [0x6a09e667, 0xbb67ae85, 0x3c6ef372, 0xa54ff53a, 0x510e527f, 0x9b05688c, 0x1f83d9ab, 0x5be0cd19]"

definition kBlockBytes :: nat where
  "kBlockBytes = 64"

definition byte32 :: "char \<Rightarrow> 32 word" where
  "byte32 c = word_of_nat (of_char c)"

text \<open>One big-endian word of a block.\<close>

definition block_word :: "string \<Rightarrow> nat \<Rightarrow> 32 word" where
  "block_word block i =
     push_bit 24 (byte32 (block ! (i * 4))) OR push_bit 16 (byte32 (block ! (i * 4 + 1))) OR
     push_bit 8 (byte32 (block ! (i * 4 + 2))) OR byte32 (block ! (i * 4 + 3))"

definition schedule_step :: "32 word list \<Rightarrow> 32 word list" where
  "schedule_step ws =
     (let i = length ws;
          s0 = word_rotr 7 (ws ! (i - 15)) XOR word_rotr 18 (ws ! (i - 15)) XOR drop_bit 3 (ws ! (i - 15));
          s1 = word_rotr 17 (ws ! (i - 2)) XOR word_rotr 19 (ws ! (i - 2)) XOR drop_bit 10 (ws ! (i - 2))
      in ws @ [ws ! (i - 16) + s0 + ws ! (i - 7) + s1])"

definition schedule :: "string \<Rightarrow> 32 word list" where
  "schedule block = (schedule_step ^^ 48) (map (block_word block) [0..<16])"

definition sha_round :: "state32 \<Rightarrow> 32 word \<times> 32 word \<Rightarrow> state32" where
  "sha_round work = (\<lambda>(k, w).
     let s1 = word_rotr 6 (work ! 4) XOR word_rotr 11 (work ! 4) XOR word_rotr 25 (work ! 4);
         chosen = (work ! 4 AND work ! 5) XOR (NOT (work ! 4) AND work ! 6);
         temp1 = work ! 7 + s1 + chosen + k + w;
         s0 = word_rotr 2 (work ! 0) XOR word_rotr 13 (work ! 0) XOR word_rotr 22 (work ! 0);
         majority = (work ! 0 AND work ! 1) XOR (work ! 0 AND work ! 2) XOR (work ! 1 AND work ! 2);
         temp2 = s0 + majority
     in [temp1 + temp2, work ! 0, work ! 1, work ! 2, work ! 3 + temp1, work ! 4, work ! 5, work ! 6])"

definition Compress_block :: "state32 \<Rightarrow> string \<Rightarrow> state32" where
  "Compress_block state block =
     map2 (+) state (foldl sha_round state (zip kRoundConstants (schedule block)))"

function Sha256_blocks :: "state32 \<Rightarrow> string \<Rightarrow> state32 \<times> string" where
  "Sha256_blocks state data =
     (if kBlockBytes \<le> length data
      then Sha256_blocks (Compress_block state (take kBlockBytes data)) (drop kBlockBytes data)
      else (state, data))"
  by pat_completeness auto

termination Sha256_blocks
  by (relation "measure (\<lambda>(_, data). length data)") (auto simp: kBlockBytes_def)

declare Sha256_blocks.simps [simp del]

text \<open>The tail buffer: two zeroed blocks, into which the remaining bytes, the end mark and the bit length
  are written.\<close>

definition tail_length :: "nat \<Rightarrow> nat" where
  "tail_length rest = (if rest + 1 + 8 \<le> kBlockBytes then kBlockBytes else kBlockBytes * 2)"

definition length_byte :: "64 word \<Rightarrow> nat \<Rightarrow> char" where
  "length_byte bit_length i = char_of (unat (drop_bit (i * 8) bit_length AND 0xff))"

definition tail_buffer :: "string \<Rightarrow> nat \<Rightarrow> string" where
  "tail_buffer rest size_of_data =
     (let tail = rest @ replicate (kBlockBytes * 2 - length rest) CHR 0x00;
          tail = tail[length rest := CHR 0x80];
          tail_len = tail_length (length rest);
          bit_length = (word_of_nat size_of_data :: 64 word) * 8
      in foldl (\<lambda>tail i. tail[tail_len - 1 - i := length_byte bit_length i]) tail [0..<8])"

definition digest_bytes :: "state32 \<Rightarrow> string" where
  "digest_bytes state =
     concat (map (\<lambda>w. map (\<lambda>shift. char_of (unat (drop_bit shift w AND 0xff))) [24, 16, 8, 0]) state)"

definition Sha256 :: "string \<Rightarrow> string" where
  "Sha256 data =
     (case Sha256_blocks kInitialState data of
        (state, rest) \<Rightarrow>
          (let tail = tail_buffer rest (length data) in
           digest_bytes (foldl (\<lambda>state blk. Compress_block state (substr tail blk kBlockBytes)) state
             (if tail_length (length rest) = kBlockBytes then [0] else [0, kBlockBytes]))))"

section \<open>Nix32 and store paths\<close>

definition kAlphabet :: string where
  "kAlphabet = ''0123456789abcdfghijklmnpqrsvwxyz''"

definition byte_at :: "string \<Rightarrow> nat \<Rightarrow> nat" where
  "byte_at bs i = (if i < length bs then of_char (bs ! i) else 0)"

text \<open>The number of digits, in the arithmetic of \<open>size_t\<close>.\<close>

definition nix32_length :: "nat \<Rightarrow> nat" where
  "nix32_length n = unat (((word_of_nat n :: 64 word) * 8 - 1) div 5 + 1)"

definition nix32_digit :: "string \<Rightarrow> nat \<Rightarrow> nat" where
  "nix32_digit bs b =
     (let pair = byte_at bs (b div 8) OR push_bit 8 (byte_at bs (b div 8 + 1)) in
      drop_bit (b mod 8) pair AND 0x1f)"

definition Nix32 :: "string \<Rightarrow> string" where
  "Nix32 bs =
     (let n = nix32_length (length bs) in
      map (\<lambda>idx. kAlphabet ! nix32_digit bs ((n - 1 - idx) * 5)) [0..<n])"

definition kStorePathHashBytes :: nat where
  "kStorePathHashBytes = 20"

definition xor_char :: "char \<Rightarrow> char \<Rightarrow> char" where
  "xor_char a b = char_of ((of_char a :: nat) XOR of_char b)"

definition CompressHash :: "string \<Rightarrow> string" where
  "CompressHash digest =
     foldl (\<lambda>out i. out[i mod kStorePathHashBytes := xor_char (out ! (i mod kStorePathHashBytes)) (digest ! i)])
       (replicate kStorePathHashBytes CHR 0x00) [0..<length digest]"

definition MakeStorePath :: "string \<Rightarrow> string \<Rightarrow> string \<Rightarrow> string \<Rightarrow> string" where
  "MakeStorePath store_dir type inner_fingerprint name =
     (let fingerprint = type @ '':sha256:'' @ HexEncode (Sha256 inner_fingerprint) @ '':'' @ store_dir @ '':'' @ name in
      store_dir @ ''/'' @ Nix32 (CompressHash (Sha256 fingerprint)) @ ''-'' @ name)"

definition FixedOutputPath :: "string \<Rightarrow> string \<Rightarrow> string \<Rightarrow> string \<Rightarrow> string" where
  "FixedOutputPath store_dir name algo hex =
     MakeStorePath store_dir ''output:out'' (''fixed:out:'' @ algo @ '':'' @ hex @ '':'') name"

section \<open>The padding of the standard\<close>

fun sha_blocks :: "string \<Rightarrow> string list" where
  "sha_blocks [] = []"
| "sha_blocks (c # cs) = take 64 (c # cs) # sha_blocks (drop 64 (c # cs))"

declare sha_blocks.simps(2) [simp del]

definition sha_length :: "nat \<Rightarrow> string" where
  "sha_length n = map (length_byte (word_of_nat n * 8)) (rev [0..<8])"

text \<open>The message, a one bit, zeroes up to 64 bits short of a block, and the length in bits.\<close>

definition sha_pad :: "string \<Rightarrow> string" where
  "sha_pad data = data @ CHR 0x80 # replicate ((119 - length data mod 64) mod 64) CHR 0x00 @ sha_length (length data)"

definition sha_spec :: "string \<Rightarrow> string" where
  "sha_spec data = digest_bytes (foldl Compress_block kInitialState (sha_blocks (sha_pad data)))"

lemma length_sha_length [simp]: "length (sha_length n) = 8"
  by (simp add: sha_length_def)

lemma sha_blocks_block:
  "length b = 64 \<Longrightarrow> sha_blocks (b @ s) = b # sha_blocks s"
  by (cases b) (simp_all add: sha_blocks.simps(2))

lemma Sha256_blocks_rest:
  "Sha256_blocks state data = (s, r) \<Longrightarrow>
   length r = length data mod 64 \<and>
   foldl Compress_block state (sha_blocks (data @ t)) = foldl Compress_block s (sha_blocks (r @ t))"
proof (induction state data rule: Sha256_blocks.induct)
  case (1 state data)
  show ?case
  proof (cases "kBlockBytes \<le> length data")
    case True
    let ?state = "Compress_block state (take kBlockBytes data)" and ?rest = "drop kBlockBytes data"
    have "Sha256_blocks ?state ?rest = (s, r)" using "1.prems" True by (simp add: Sha256_blocks.simps [of state data])
    from "1.IH" [OF True this] have IH: "length r = length ?rest mod 64"
      "foldl Compress_block ?state (sha_blocks (?rest @ t)) = foldl Compress_block s (sha_blocks (r @ t))" by blast+
    have "data @ t = take kBlockBytes data @ (?rest @ t)" by simp
    then have "sha_blocks (data @ t) = take kBlockBytes data # sha_blocks (?rest @ t)"
      using True by (simp only:) (rule sha_blocks_block, simp add: kBlockBytes_def min_absorb2)
    with IH True show ?thesis by (simp add: kBlockBytes_def le_mod_geq)
  next
    case False
    then show ?thesis using "1.prems" by (simp add: Sha256_blocks.simps [of state data] kBlockBytes_def)
  qed
qed

lemma updates_down:
  "k \<le> n \<Longrightarrow> n \<le> length t \<Longrightarrow>
   foldl (\<lambda>t i. t[n - 1 - i := f i]) t [0..<k] = take (n - k) t @ map f (rev [0..<k]) @ drop n t"
proof (induction k)
  case (Suc k)
  let ?m = "n - Suc k"
  have "?m < length t" using Suc.prems by simp
  have m: "n - k = Suc ?m" using Suc.prems by simp
  have "foldl (\<lambda>t i. t[n - 1 - i := f i]) t [0..<Suc k] =
      (take (n - k) t @ map f (rev [0..<k]) @ drop n t)[?m := f k]"
    using Suc by simp
  also have "take (n - k) t = take ?m t @ [t ! ?m]"
    unfolding m by (rule take_Suc_conv_app_nth) fact
  finally show ?case using \<open>?m < length t\<close> by (simp add: list_update_append)
qed simp

lemma tail_buffer_text:
  assumes "length r < 64"
  shows "take (tail_length (length r)) (tail_buffer r n) =
    r @ CHR 0x80 # replicate (tail_length (length r) - length r - 9) CHR 0x00 @ sha_length n"
proof -
  let ?L = "tail_length (length r)"
  let ?t = "(r @ replicate (128 - length r) CHR 0x00)[length r := CHR 0x80]"
  have L: "length r + 9 \<le> ?L" "?L \<le> 128" using assms by (auto simp: tail_length_def kBlockBytes_def)
  have "replicate (128 - length r) CHR 0x00 = CHR 0x00 # replicate (127 - length r) CHR 0x00"
    using assms by (simp flip: replicate_Suc add: Suc_diff_le)
  then have t: "?t = r @ CHR 0x80 # replicate (127 - length r) CHR 0x00" by (simp add: list_update_append)
  have "tail_buffer r n = foldl (\<lambda>t i. t[?L - 1 - i := length_byte (word_of_nat n * 8) i]) ?t [0..<8]"
    by (simp add: tail_buffer_def kBlockBytes_def Let_def)
  also have "\<dots> = take (?L - 8) ?t @ sha_length n @ drop ?L ?t"
    unfolding sha_length_def using L by (intro updates_down) simp_all
  finally have "take ?L (tail_buffer r n) = take (?L - 8) ?t @ sha_length n" using L by simp
  moreover have "take (?L - 8) ?t = r @ CHR 0x80 # replicate (?L - length r - 9) CHR 0x00"
    unfolding t using L by (simp add: take_Cons' min_def add.commute)
  ultimately show ?thesis by simp
qed

lemma length_tail_buffer: "length r < 64 \<Longrightarrow> length (tail_buffer r n) = 128"
proof -
  have "length (foldl (\<lambda>t i. t[g i := f i]) t js) = length t" for f g and js :: "nat list" and t :: string
    by (induction js arbitrary: t) simp_all
  then show "length r < 64 \<Longrightarrow> ?thesis" by (simp add: tail_buffer_def Let_def kBlockBytes_def)
qed

lemma tail_pad:
  assumes "m < 64"
  shows "tail_length m - m - 9 = (119 - m) mod 64"
proof (cases "m \<le> 55")
  case True
  then have "119 - m = (55 - m) + 64" "55 - m < 64" by simp_all
  then have "(119 - m) mod 64 = 55 - m" by (metis mod_add_self2 mod_less)
  then show ?thesis using True by (simp add: tail_length_def kBlockBytes_def)
next
  case False
  then have "(119 - m) mod 64 = 119 - m" by (intro mod_less) simp
  then show ?thesis using False by (simp add: tail_length_def kBlockBytes_def)
qed

lemma sha_blocks_tail:
  assumes "length x = 128" "n = 64 \<or> n = 128"
  shows "sha_blocks (take n x) = map (\<lambda>blk. substr x blk 64) (if n = 64 then [0] else [0, 64])"
proof -
  have one: "sha_blocks (take 64 x) = [take 64 x]"
    using sha_blocks_block [of "take 64 x" "[]"] assms(1) by simp
  have last: "sha_blocks (drop 64 x) = [drop 64 x]"
    using sha_blocks_block [of "drop 64 x" "[]"] assms(1) by simp
  have "sha_blocks (take 64 x @ drop 64 x) = take 64 x # sha_blocks (drop 64 x)"
    by (rule sha_blocks_block) (simp add: assms(1))
  then have two: "sha_blocks x = [take 64 x, drop 64 x]" by (simp only: append_take_drop_id last)
  show ?thesis using assms one two by (auto simp: substr_def)
qed


section \<open>Base 32\<close>

abbreviation little_endian :: "string \<Rightarrow> nat" where
  "little_endian bs \<equiv> horner_sum of_char 256 bs"

lemma little_endian_byte: "little_endian bs div 256 ^ i mod 256 = byte_at bs i"
proof (induction bs arbitrary: i)
  case (Cons c bs)
  show ?case
  proof (cases i)
    case 0
    then show ?thesis by (simp add: byte_at_def)
  next
    case (Suc j)
    have "(of_char c + 256 * little_endian bs) div 256 = little_endian bs"
      using of_char_less [of c] by simp
    then have "little_endian (c # bs) div 256 ^ i = little_endian bs div 256 ^ j"
      unfolding Suc power_Suc by (simp only: div_mult2_eq horner_sum_simps)
    then show ?thesis using Cons.IH [of j] by (simp add: Suc byte_at_def)
  qed
qed (simp add: byte_at_def)
lemma byte_at_bits: "byte_at bs i = take_bit 8 (drop_bit (8 * i) (little_endian bs))"
  using little_endian_byte [of bs i] by (simp add: take_bit_eq_mod drop_bit_eq_div power_mult)

lemma little_endian_less: "little_endian bs < 256 ^ length bs"
proof (induction bs)
  case (Cons c bs)
  have "of_char c + 256 * little_endian bs < 256 + 256 * little_endian bs" using of_char_less [of c] by simp
  also have "\<dots> = 256 * Suc (little_endian bs)" by simp
  also have "\<dots> \<le> 256 * 256 ^ length bs" using Cons by (intro mult_le_mono2) simp
  finally show ?case by simp
qed simp

lemma nix32_digit_bits: "nix32_digit bs b = take_bit 5 (drop_bit b (little_endian bs))"
proof -
  let ?N = "little_endian bs" and ?q = "b div 8" and ?r = "b mod 8"
  have "byte_at bs ?q OR push_bit 8 (byte_at bs (?q + 1)) = take_bit 16 (drop_bit (8 * ?q) ?N)"
    unfolding byte_at_bits by (rule bit_eqI) (auto simp: bit_simps)
  moreover have "x AND 31 = take_bit 5 x" for x :: nat
    by (simp add: take_bit_eq_mask mask_eq_exp_minus_1)
  moreover have "take_bit 5 (drop_bit ?r (take_bit 16 x)) = take_bit 5 (drop_bit ?r x)" for x :: nat
  proof -
    have "?r < 8" by simp
    then have "min 5 (16 - ?r) = 5" by linarith
    then show ?thesis by (simp only: drop_bit_take_bit take_bit_take_bit)
  qed
  moreover have "drop_bit ?r (drop_bit (8 * ?q) ?N) = drop_bit b ?N"
    by (simp add: drop_bit_drop_bit)
  ultimately show ?thesis by (simp add: nix32_digit_def Let_def)
qed

lemma base32_digits:
  "horner_sum (\<lambda>k. take_bit 5 (drop_bit (k * 5) N)) 32 [0..<n] = take_bit (n * 5) (N :: nat)"
proof (induction n)
  case (Suc n)
  have "take_bit (Suc n * 5) N = N mod (2 ^ (n * 5) * 2 ^ 5)"
    unfolding take_bit_eq_mod power_add [symmetric] by (simp add: add.commute)
  also have "\<dots> = 2 ^ (n * 5) * take_bit 5 (drop_bit (n * 5) N) + take_bit (n * 5) N"
    by (simp only: mod_mult2_eq take_bit_eq_mod drop_bit_eq_div)
  finally have "take_bit (Suc n * 5) N = take_bit (n * 5) N + 32 ^ n * take_bit 5 (drop_bit (n * 5) N)"
    by (simp add: power_mult mult.commute [of n 5])
  then show ?case using Suc by (simp add: horner_sum_append)
qed simp

lemma unat_small: "m < 2 ^ 64 \<Longrightarrow> unat (word_of_nat m :: 64 word) = m"
  by (simp add: unat_of_nat take_bit_eq_mod)

lemma nix32_length_digits:
  assumes "0 < n" "8 * n < 2 ^ 64"
  shows "nix32_length n = (8 * n + 4) div 5"
proof -
  have "(word_of_nat n :: 64 word) * 8 - 1 = word_of_nat (8 * n - 1)"
    using assms(1) by (simp add: of_nat_diff mult.commute)
  moreover have "unat (word_of_nat (8 * n - 1) :: 64 word) = 8 * n - 1"
    by (rule unat_small) (use assms in simp)
  ultimately have d: "unat (((word_of_nat n :: 64 word) * 8 - 1) div 5) = (8 * n - 1) div 5"
    by (simp only: unat_div) simp
  have "(8 * n - 1) div 5 + 1 < 2 ^ 64" using assms by linarith
  then have "nix32_length n = (8 * n - 1) div 5 + 1"
    unfolding nix32_length_def using d by (subst unat_add_lem [THEN iffD1]) simp_all
  then show ?thesis using assms(1) by linarith
qed

definition alphabet_index :: "char \<Rightarrow> nat" where
  "alphabet_index c = length (takeWhile (\<lambda>d. d \<noteq> c) kAlphabet)"

lemma alphabet_index_nth: "d < 32 \<Longrightarrow> alphabet_index (kAlphabet ! d) = d"
proof -
  have "list_all (\<lambda>d. alphabet_index (kAlphabet ! d) = d) [0..<32]" by code_simp
  then show "d < 32 \<Longrightarrow> ?thesis" by (simp add: list_all_iff)
qed

lemma alphabet_store_char: "d < 32 \<Longrightarrow> is_store_hash_char (kAlphabet ! d)"
proof -
  have "list_all (\<lambda>d. is_store_hash_char (kAlphabet ! d)) [0..<32]" by code_simp
  then show "d < 32 \<Longrightarrow> ?thesis" by (simp add: list_all_iff)
qed

lemma nix32_digit_less: "nix32_digit bs b < 32"
  unfolding nix32_digit_bits using take_bit_nat_less_exp [of 5] by simp

lemma rev_Nix32:
  "rev (Nix32 bs) = map (\<lambda>k. kAlphabet ! nix32_digit bs (k * 5)) [0..<nix32_length (length bs)]"
  by (rule nth_equalityI) (simp_all add: Nix32_def Let_def rev_nth)

lemma horner_map: "horner_sum f a (map g xs) = horner_sum (\<lambda>x. f (g x)) (a :: nat) xs"
  by (induction xs) simp_all

lemma Nix32_value:
  assumes "bs \<noteq> []" "8 * length bs < 2 ^ 64"
  shows "horner_sum alphabet_index 32 (rev (Nix32 bs)) = little_endian bs"
proof -
  let ?n = "nix32_length (length bs)"
  have "horner_sum alphabet_index 32 (rev (Nix32 bs)) =
      horner_sum (\<lambda>k. take_bit 5 (drop_bit (k * 5) (little_endian bs))) 32 [0..<?n]"
    unfolding rev_Nix32 horner_map
    by (simp only: alphabet_index_nth [OF nix32_digit_less]) (simp only: nix32_digit_bits)
  also have "\<dots> = take_bit (?n * 5) (little_endian bs)" by (rule base32_digits)
  also have "\<dots> = little_endian bs"
  proof -
    have "?n = (8 * length bs + 4) div 5" using assms by (intro nix32_length_digits) auto
    then have "8 * length bs \<le> ?n * 5" by linarith
    then have "(2::nat) ^ (8 * length bs) \<le> 2 ^ (?n * 5)" by (intro power_increasing) auto
    then have "little_endian bs < 2 ^ (?n * 5)"
      by (rule less_le_trans [rotated]) (use little_endian_less [of bs] in \<open>simp add: power_mult\<close>)
    then show ?thesis by (rule take_bit_nat_eq_self)
  qed
  finally show ?thesis .
qed

text \<open>C33: Nix32 spells a number.  The digits, most significant first, are those of the number whose
  little-endian bytes the argument is; there are just enough of them; and each is a character of store
  hashes.  Different byte strings of one length therefore have different spellings.\<close>

theorem Nix32_number:
  assumes "bs \<noteq> []" "8 * length bs < 2 ^ 64"
  shows "horner_sum alphabet_index 32 (rev (Nix32 bs)) = little_endian bs \<and>
    length (Nix32 bs) = (8 * length bs + 4) div 5 \<and> list_all is_store_hash_char (Nix32 bs)"
proof (intro conjI)
  show "length (Nix32 bs) = (8 * length bs + 4) div 5"
    using assms nix32_length_digits [of "length bs"] by (simp add: Nix32_def Let_def)
  show "list_all is_store_hash_char (Nix32 bs)"
    by (simp add: Nix32_def Let_def list_all_iff alphabet_store_char [OF nix32_digit_less])
qed (rule Nix32_value [OF assms])

theorem Nix32_number_witness:
  "horner_sum alphabet_index 32 (rev (Nix32 [CHR 0x01, CHR 0x02])) = 513"
  using Nix32_number [of "[CHR 0x01, CHR 0x02]"] by simp

section \<open>Store paths\<close>

lemma length_CompressHash: "length (CompressHash digest) = 20"
proof -
  have "length (foldl (\<lambda>t i. t[g i := f t i]) t js) = length t" for f g and js :: "nat list" and t :: string
    by (induction js arbitrary: t) simp_all
  then show ?thesis by (simp add: CompressHash_def kStorePathHashBytes_def)
qed

lemma IsStoreHash_Nix32: "length bs = 20 \<Longrightarrow> IsStoreHash (Nix32 bs)"
  using nix32_length_digits [of "length bs"]
  by (auto simp: IsStoreHash_def kStoreHashLength_def Nix32_def Let_def list_all_iff alphabet_store_char [OF nix32_digit_less])

text \<open>C34: a computed store path is a store path.  Whatever is hashed, the path has the shape
  \<open>dir/hash-name\<close> with a well-formed hash, so the masking of the cache recognises it and reduces it to the
  package name.\<close>

theorem MakeStorePath_masked:
  assumes "no_store_dir (st_dir st) (''-'' @ name)"
  shows "MaskHashes st (MakeStorePath (st_dir st) type inner name) = st_dir st @ ''/*-'' @ name \<and>
    (\<exists>hash. IsStoreHash hash \<and> MakeStorePath (st_dir st) type inner name = st_dir st @ ''/'' @ hash @ ''-'' @ name)"
proof -
  obtain hash where hash: "IsStoreHash hash"
    and path: "MakeStorePath (st_dir st) type inner name = store_path (st_dir st) hash name"
    using IsStoreHash_Nix32 [OF length_CompressHash] by (simp add: MakeStorePath_def Let_def store_path_def) blast
  then show ?thesis
    using MaskHashes_store_path [OF hash assms] by (auto simp: store_path_def)
qed

theorem MakeStorePath_masked_witness:
  "MaskHashes nix_store (MakeStorePath ''/nix/store'' ''text'' ''hello'' ''x.drv'') = ''/nix/store/*-x.drv''"
  using MakeStorePath_masked [of nix_store "''x.drv''" "''text''" "''hello''"]
  by (simp add: nix_store_def no_store_dir_def sublist_code)

end
