(* ===== verification/Driver.thy ===== *)
theory Driver
  imports Store_Replay "HOL-Library.Char_ord"
begin

text \<open>
  \<open>driver.cc\<close>: the command line of the real compiler.  The configuration is read from JSON, the
  arguments of the build system are scanned, and the flags of the toolchain, of the package and of the
  link policy of the binary format are put around them.  The JSON parser and the file system are
  parameters, collected in a record.  The lemmas follow the list of RUNPATH entries from the command line
  to its rendered text, and show what of the user's command line survives.
\<close>

section \<open>Configuration data\<close>

definition kRunpathSlack :: nat where
  "kRunpathSlack = 48"

definition kNeededSlack :: nat where
  "kNeededSlack = 80"

definition kInterpSlack :: nat where
  "kInterpSlack = 12"

datatype language = KC | KCxx | KFortran

datatype bin_fmt = KElf | KMachO | KCoff

record package_cc_flags =
  pk_cflags :: "string list"
  pk_cxxflags :: "string list"
  pk_ldflags :: "string list"

record driver_conf =
  dc_cc :: string
  dc_fc :: string
  dc_binfmt :: bin_fmt
  dc_libc :: string
  dc_interp :: string
  dc_crt :: string
  dc_runtimes :: string
  dc_flags :: "string list"
  dc_cxxflags :: "string list"
  dc_fflags :: "string list"
  dc_prefix_map :: "string list"
  dc_package :: package_cc_flags
  dc_present :: bool

definition no_package_flags :: package_cc_flags where
  "no_package_flags = \<lparr>pk_cflags = [], pk_cxxflags = [], pk_ldflags = []\<rparr>"

definition empty_conf :: driver_conf where
  "empty_conf = \<lparr>dc_cc = [], dc_fc = [], dc_binfmt = KElf, dc_libc = [], dc_interp = ''ld-linux-x86-64.so.2'',
     dc_crt = [], dc_runtimes = [], dc_flags = [], dc_cxxflags = [], dc_fflags = [], dc_prefix_map = [],
     dc_package = no_package_flags, dc_present = False\<rparr>"

text \<open>JSON values as the parser hands them over, and what the driver asks of its surroundings.  A parser
  that finds no JSON text answers \<open>None\<close>; \<open>dh_exe\<close> is the target of \<open>/proc/self/exe\<close>.\<close>

datatype json = JNull | JBool bool | JNumber int | JString string | JArray "json list"
  | JObject "(string \<times> json) list"

record driver_host =
  dh_store :: store
  dh_canonical :: "string \<Rightarrow> string option"
  dh_exists :: "string \<Rightarrow> bool"
  dh_read :: "string \<Rightarrow> string option"
  dh_env :: env
  dh_json :: "string \<Rightarrow> json option"
  dh_exe :: "string option"

datatype conf_error = NotAnObject | BadBinfmt string | WrongType

section \<open>Names and flags\<close>

definition RealDir :: "driver_host \<Rightarrow> string \<Rightarrow> string" where
  "RealDir h path = (case dh_canonical h path of None \<Rightarrow> path | Some real \<Rightarrow> real)"

definition IsHostDir :: "string \<Rightarrow> bool" where
  "IsHostDir path \<longleftrightarrow> starts_with path ''/usr'' \<or> starts_with path ''/lib'' \<or> starts_with path ''/opt''"

definition is_version_char :: "char \<Rightarrow> bool" where
  "is_version_char c \<longleftrightarrow> c = CHR ''.'' \<or> (CHR ''0'' \<le> c \<and> c \<le> CHR ''9'')"

definition IsSharedLibName :: "string \<Rightarrow> bool" where
  "IsSharedLibName base =
     (if ends_with base ''.dylib'' then True
      else case rfind_str ''.so'' base of
        None \<Rightarrow> False
      | Some suffix_pos \<Rightarrow>
          (let tail = drop (suffix_pos + 3) base in
           tail = [] \<or> hd tail = CHR ''.'' \<and> list_all is_version_char (tl tail)))"

text \<open>The scanners get the argument at hand and the ones after it; one that also consumes later arguments
  returns what is left.\<close>

fun TakeRpathArg :: "string \<Rightarrow> string list \<Rightarrow> (string \<times> string list) option" where
  "TakeRpathArg arg rest =
     (if (arg = ''-Wl,-rpath'' \<or> arg = ''-Wl,--rpath'') \<and> rest \<noteq> [] \<and> starts_with (hd rest) ''-Wl,''
      then Some (drop 4 (hd rest), tl rest)
      else if starts_with arg ''-Wl,-rpath,'' then Some (drop 11 arg, rest)
      else if starts_with arg ''-Wl,--rpath,'' then Some (drop 12 arg, rest)
      else if starts_with arg ''-Wl,-rpath='' then Some (drop 11 arg, rest)
      else if starts_with arg ''-Wl,--rpath='' then Some (drop 12 arg, rest)
      else if arg = ''-Xlinker'' then
        (case rest of
           flag # again # value # rest \<Rightarrow>
             if (flag = ''-rpath'' \<or> flag = ''--rpath'') \<and> again = ''-Xlinker'' then Some (value, rest) else None
         | _ \<Rightarrow> None)
      else None)"

declare TakeRpathArg.simps [simp del]

definition IsOutputOnlyMode :: "string \<Rightarrow> bool" where
  "IsOutputOnlyMode arg \<longleftrightarrow> arg \<in> {''-c'', ''-E'', ''-S'', ''-M'', ''-MM'', ''-fsyntax-only'', ''-###''}"

definition RefusesLinkPolicy :: "string \<Rightarrow> bool" where
  "RefusesLinkPolicy arg \<longleftrightarrow> arg \<in> {''-static'', ''-static-pie'', ''-r'', ''-Wl,-r'', ''-nostartfiles''}"

definition IsRuntimeLib :: "string \<Rightarrow> bool" where
  "IsRuntimeLib lib \<longleftrightarrow> lib \<in> {''c++'', ''stdc++'', ''gcc_s'', ''unwind'', '':libunwind.so''}"

definition IsFortifyArg :: "string \<Rightarrow> bool" where
  "IsFortifyArg arg \<longleftrightarrow> starts_with arg ''-D_FORTIFY_SOURCE'' \<or> arg = ''-U_FORTIFY_SOURCE'' \<or>
     starts_with arg ''-Wp,-D_FORTIFY_SOURCE'' \<or> starts_with arg ''-Wp,-U_FORTIFY_SOURCE''"

definition IsPicArg :: "string \<Rightarrow> bool" where
  "IsPicArg arg \<longleftrightarrow>
     arg \<in> {''-fPIC'', ''-fpic'', ''-fPIE'', ''-fpie'', ''-fno-PIC'', ''-fno-pic'', ''-pie''}"

definition FlagValue :: "string \<Rightarrow> string list \<Rightarrow> string \<Rightarrow> string option" where
  "FlagValue arg rest flag =
     (if \<not> starts_with arg flag then None
      else if length arg > length flag then Some (drop (length flag) arg)
      else if rest \<noteq> [] then Some (hd rest)
      else None)"

section \<open>The RUNPATH under construction\<close>

record runpath_list =
  rl_verbatim :: string
  rl_entries :: "string list"

definition empty_runpath :: runpath_list where
  "empty_runpath = \<lparr>rl_verbatim = [], rl_entries = []\<rparr>"

definition Add :: "string \<Rightarrow> runpath_list \<Rightarrow> runpath_list" where
  "Add dir rl =
     (if IsHostDir dir \<or> dir \<in> set (rl_entries rl) then rl else rl\<lparr>rl_entries := rl_entries rl @ [dir]\<rparr>)"

definition AddVerbatim :: "string \<Rightarrow> runpath_list \<Rightarrow> runpath_list" where
  "AddVerbatim rpath rl =
     foldl (\<lambda>rl part. if \<not> IsHostDir part then rl\<lparr>rl_verbatim := rl_verbatim rl @ part @ '':''\<rparr> else rl)
       rl (Split rpath CHR '':'' True)"

definition pad_length :: "runpath_list \<Rightarrow> nat \<Rightarrow> nat" where
  "pad_length rl libs =
     (let stores = length (rl_entries rl) + count_list (rl_verbatim rl) CHR '':'' in
      max stores 1 * kRunpathSlack + libs * kNeededSlack - 1)"

definition Render :: "runpath_list \<Rightarrow> nat \<Rightarrow> string" where
  "Render rl libs =
     (let out = foldl (\<lambda>out entry. out @ entry @ ''/.:'') (rl_verbatim rl) (rl_entries rl) in
      out @ ''/'' @ replicate (pad_length rl libs) CHR ''_'')"

record user_args =
  ua_args :: "string list"
  ua_runpath :: runpath_list
  ua_output :: string
  ua_linking :: bool
  ua_have_input :: bool
  ua_shared :: bool
  ua_no_policy :: bool
  ua_optimizes :: bool
  ua_sets_fortify :: bool

record lib_scan =
  ls_dirs :: "string list"
  ls_libs :: "string list"
  ls_runtime :: bool
  ls_runpath :: runpath_list

fun scan_libs :: "driver_host \<Rightarrow> string list \<Rightarrow> lib_scan \<Rightarrow> lib_scan" where
  "scan_libs h [] s = s"
| "scan_libs h (arg # rest) s =
     (let s = (case FlagValue arg rest ''-L'' of
                 Some dir \<Rightarrow> s\<lparr>ls_dirs := ls_dirs s @ [dir]\<rparr>
               | None \<Rightarrow>
                   (case FlagValue arg rest ''-l'' of
                      Some lib \<Rightarrow> s\<lparr>ls_runtime := ls_runtime s \<or> IsRuntimeLib lib, ls_libs := ls_libs s @ [lib]\<rparr>
                    | None \<Rightarrow>
                        if IsStorePath (dh_store h) arg \<and> IsSharedLibName (path_filename arg)
                        then s\<lparr>ls_runpath := Add (parent_path (RealDir h arg)) (ls_runpath s)\<rparr>
                        else s));
          s = (if arg = ''-nostdlib++'' \<or> arg = ''-nostdlib'' then s\<lparr>ls_runtime := False\<rparr> else s)
      in scan_libs h rest s)"

definition provides :: "driver_host \<Rightarrow> string list \<Rightarrow> string \<Rightarrow> bool" where
  "provides h libs dir =
     list_ex (\<lambda>lib. dh_exists h (dir @ ''/lib'' @ lib @ ''.so'') \<or> dh_exists h (dir @ ''/lib'' @ lib @ ''.dylib'')) libs"

definition AddRunpathEntries ::
  "driver_host \<Rightarrow> driver_conf \<Rightarrow> bool \<Rightarrow> string list \<Rightarrow> runpath_list \<Rightarrow> nat \<times> runpath_list" where
  "AddRunpathEntries h conf cxx args runpath =
     (let s = scan_libs h args \<lparr>ls_dirs = [], ls_libs = [], ls_runtime = cxx, ls_runpath = runpath\<rparr>;
          rp = foldl (\<lambda>rp dir. let real = RealDir h dir in
                 if IsStorePath (dh_store h) real \<and> provides h (ls_libs s) real then Add real rp else rp)
               (ls_runpath s) (ls_dirs s);
          rp = (if ls_runtime s \<and> dc_runtimes conf \<noteq> [] then Add (dc_runtimes conf) rp else rp);
          rp = Add (dc_libc conf @ ''/lib'') rp
      in (length (ls_libs s), rp))"

definition CollectRunpath :: "driver_host \<Rightarrow> driver_conf \<Rightarrow> bool \<Rightarrow> user_args \<Rightarrow> nat \<times> user_args" where
  "CollectRunpath h conf cxx user =
     (case AddRunpathEntries h conf cxx (ua_args user @ pk_ldflags (dc_package conf)) (ua_runpath user) of
        (libs, rp) \<Rightarrow> (libs, user\<lparr>ua_runpath := rp\<rparr>))"

section \<open>The binary formats\<close>

text \<open>\<open>link\<close> may change the scanned arguments and appends to the tail of the command line; \<open>libs\<close> is the
  step on every link, absent where the format has none.\<close>

record bin_fmt_policy =
  po_takes_rpath :: bool
  po_arg :: "string \<Rightarrow> string option"
  po_always :: "string list \<Rightarrow> string list"
  po_link :: "driver_host \<Rightarrow> driver_conf \<Rightarrow> bool \<Rightarrow> user_args \<Rightarrow> string list \<Rightarrow> user_args \<times> string list"
  po_libs :: "(driver_host \<Rightarrow> driver_conf \<Rightarrow> user_args \<Rightarrow> user_args) option"

definition KeepArg :: "string \<Rightarrow> string option" where
  "KeepArg arg = Some arg"

definition NoFlags :: "string list \<Rightarrow> string list" where
  "NoFlags out = out"

definition NoLink ::
  "driver_host \<Rightarrow> driver_conf \<Rightarrow> bool \<Rightarrow> user_args \<Rightarrow> string list \<Rightarrow> user_args \<times> string list" where
  "NoLink h conf cxx user out = (user, out)"

definition theirs :: "string \<Rightarrow> bool" where
  "theirs arg \<longleftrightarrow> starts_with arg ''-Wl,--dynamic-linker'' \<or> starts_with arg ''-Wl,-dynamic-linker''"

definition ElfArg :: "string \<Rightarrow> string option" where
  "ElfArg arg = (if theirs arg then None else Some arg)"

definition ElfFlags :: "string list \<Rightarrow> string list" where
  "ElfFlags out = out @ [''-Wl,--build-id=sha1'',
     ''-Wl,--package-metadata={'' @ [CHR 0x22] @ ''type'' @ [CHR 0x22] @ '':'' @ [CHR 0x22] @ ''repkgs'' @ [CHR 0x22] @ ''}'']"

definition ElfLink ::
  "driver_host \<Rightarrow> driver_conf \<Rightarrow> bool \<Rightarrow> user_args \<Rightarrow> string list \<Rightarrow> user_args \<times> string list" where
  "ElfLink h conf cxx user out =
     (case CollectRunpath h conf cxx user of (libs, user) \<Rightarrow>
        let out = out @ [''-Wl,--undefined-version'', ''-Wl,-rpath,'' @ Render (ua_runpath user) libs,
                         ''-Wl,--enable-new-dtags''];
            libc_lib = dc_libc conf @ ''/lib/''
        in if ua_shared user then (user, out)
           else if dc_crt conf = [] then (user, out @ [''-Wl,--dynamic-linker='' @ libc_lib @ dc_interp conf])
           else let dots = concat (replicate kInterpSlack ''./'') in
             (user, out @ [''-x'', ''none'', dc_crt conf,
                ''-Wl,--dynamic-linker='' @ libc_lib @ dots @ dc_interp conf,
                ''-Wl,--export-dynamic-symbol=__reloc_start'']))"

definition MachOLink ::
  "driver_host \<Rightarrow> driver_conf \<Rightarrow> bool \<Rightarrow> user_args \<Rightarrow> string list \<Rightarrow> user_args \<times> string list" where
  "MachOLink h conf cxx user out = (user, out @ [''-Wl,-headerpad_max_install_names''])"

definition CoffArg :: "string \<Rightarrow> string option" where
  "CoffArg arg =
     (if IsPicArg arg then None
      else if (starts_with arg ''-std=c'' \<or> starts_with arg ''-std=gnu'') \<and>
        list_ex (ends_with arg) [''++98'', ''++03'', ''++0x'', ''++11'']
      then Some (take (length arg - 2) arg @ ''14'')
      else Some arg)"

definition tolower :: "char \<Rightarrow> char" where
  "tolower c = (if CHR ''A'' \<le> c \<and> c \<le> CHR ''Z'' then char_of ((of_char c :: nat) + 32) else c)"

fun flag_dirs :: "string list \<Rightarrow> string list" where
  "flag_dirs [] = []"
| "flag_dirs (arg # rest) =
     (case FlagValue arg rest ''-L'' of Some dir \<Rightarrow> [dir] | None \<Rightarrow> []) @ flag_dirs rest"

definition coff_present :: "driver_host \<Rightarrow> string list \<Rightarrow> string \<Rightarrow> bool" where
  "coff_present h dirs name =
     list_ex (\<lambda>dir. dh_exists h (dir @ ''/lib'' @ name @ ''.dll.a'') \<or> dh_exists h (dir @ ''/lib'' @ name @ ''.a'') \<or>
       dh_exists h (dir @ ''/'' @ name)) dirs"

definition CoffLibs :: "driver_host \<Rightarrow> driver_conf \<Rightarrow> user_args \<Rightarrow> user_args" where
  "CoffLibs h conf user =
     (let dirs = flag_dirs (ua_args user) @ flag_dirs (pk_ldflags (dc_package conf)) in
      user\<lparr>ua_args := map (\<lambda>arg.
        if \<not> starts_with arg ''-l'' \<or> slash \<in> set arg \<or> coff_present h dirs (drop 2 arg) then arg
        else take 2 arg @ map tolower (drop 2 arg)) (ua_args user)\<rparr>)"

fun PolicyFor :: "bin_fmt \<Rightarrow> bin_fmt_policy" where
  "PolicyFor KMachO = \<lparr>po_takes_rpath = False, po_arg = KeepArg, po_always = NoFlags, po_link = MachOLink,
     po_libs = None\<rparr>"
| "PolicyFor KCoff = \<lparr>po_takes_rpath = False, po_arg = CoffArg, po_always = NoFlags, po_link = NoLink,
     po_libs = Some CoffLibs\<rparr>"
| "PolicyFor KElf = \<lparr>po_takes_rpath = True, po_arg = ElfArg, po_always = ElfFlags, po_link = ElfLink,
     po_libs = None\<rparr>"

section \<open>Scanning the command line\<close>

definition empty_user :: user_args where
  "empty_user = \<lparr>ua_args = [], ua_runpath = empty_runpath, ua_output = [], ua_linking = True,
     ua_have_input = False, ua_shared = False, ua_no_policy = False, ua_optimizes = True,
     ua_sets_fortify = False\<rparr>"

text \<open>One argument that is no RUNPATH request.\<close>

definition scan_arg :: "bin_fmt_policy \<Rightarrow> string \<Rightarrow> string list \<Rightarrow> user_args \<Rightarrow> user_args" where
  "scan_arg policy arg rest user =
     (let user = (case FlagValue arg rest ''-o'' of Some output \<Rightarrow> user\<lparr>ua_output := output\<rparr> | None \<Rightarrow> user) in
      case po_arg policy arg of
        None \<Rightarrow> user
      | Some kept \<Rightarrow>
          user\<lparr>ua_linking := ua_linking user \<and> \<not> IsOutputOnlyMode arg,
               ua_shared := ua_shared user \<or> arg = ''-shared'' \<or> arg = ''-dynamiclib'',
               ua_no_policy := ua_no_policy user \<or> RefusesLinkPolicy arg,
               ua_have_input := ua_have_input user \<or> \<not> starts_with arg ''-'',
               ua_sets_fortify := ua_sets_fortify user \<or> IsFortifyArg arg,
               ua_optimizes := (if starts_with arg ''-O'' then arg \<noteq> ''-O0'' else ua_optimizes user),
               ua_args := ua_args user @ [kept]\<rparr>)"

lemma TakeRpathArg_shorter: "TakeRpathArg arg rest = Some (v, rest') \<Longrightarrow> length rest' \<le> length rest"
  by (auto simp: TakeRpathArg.simps split: if_splits list.splits)

function scan_args :: "bin_fmt_policy \<Rightarrow> string list \<Rightarrow> user_args \<Rightarrow> user_args" where
  "scan_args policy [] user = user"
| "scan_args policy (arg # rest) user =
     (case (if po_takes_rpath policy then TakeRpathArg arg rest else None) of
        Some (rpath, rest') \<Rightarrow> scan_args policy rest' (user\<lparr>ua_runpath := AddVerbatim rpath (ua_runpath user)\<rparr>)
      | None \<Rightarrow> scan_args policy rest (scan_arg policy arg rest user))"
  by pat_completeness auto

termination scan_args
  by (relation "measure (\<lambda>(_, raw, _). length raw)")
    (auto dest!: TakeRpathArg_shorter simp: less_Suc_eq_le split: if_splits)

definition ScanUserArgs :: "string list \<Rightarrow> bin_fmt_policy \<Rightarrow> user_args" where
  "ScanUserArgs raw policy = scan_args policy raw empty_user"

section \<open>Reading the configuration\<close>

fun get_strings :: "json list \<Rightarrow> string list option" where
  "get_strings [] = Some []"
| "get_strings (JString s # js) = map_option ((#) s) (get_strings js)"
| "get_strings (_ # js) = None"

text \<open>\<open>get<std::vector<std::string>>\<close>: an exception on anything but an array of strings.\<close>

definition get_vector :: "json \<Rightarrow> string list option" where
  "get_vector j = (case j of JArray js \<Rightarrow> get_strings js | _ \<Rightarrow> None)"

definition json_find :: "json \<Rightarrow> string \<Rightarrow> json option" where
  "json_find j key = (case j of JObject fs \<Rightarrow> map_of fs key | _ \<Rightarrow> None)"

definition conf_str :: "json \<Rightarrow> string \<Rightarrow> string \<Rightarrow> string" where
  "conf_str doc key old = (case json_find doc key of Some (JString s) \<Rightarrow> s | _ \<Rightarrow> old)"

definition conf_list :: "json \<Rightarrow> string \<Rightarrow> string list \<Rightarrow> string list option" where
  "conf_list doc key old =
     (case json_find doc key of Some (JArray js) \<Rightarrow> get_strings js | _ \<Rightarrow> Some old)"

definition parse_binfmt :: "string \<Rightarrow> conf_error + bin_fmt" where
  "parse_binfmt s =
     (if s = ''elf'' then Inr KElf else if s = ''macho'' then Inr KMachO
      else if s = ''coff'' then Inr KCoff else Inl (BadBinfmt s))"

definition expand_flag :: "string \<Rightarrow> string \<Rightarrow> string" where
  "expand_flag root flag =
     (case find_str ''@/'' flag of
        None \<Rightarrow> flag
      | Some at_pos \<Rightarrow>
          if at_pos = 0 \<or> at_pos = 2 \<and> starts_with flag ''-'' \<or> flag ! (at_pos - 1) = CHR ''=''
          then replace_at flag at_pos 1 root else flag)"

definition ParseDriverConf :: "driver_host \<Rightarrow> string \<Rightarrow> string \<Rightarrow> conf_error + driver_conf" where
  "ParseDriverConf h txt root =
     (case dh_json h txt of
        Some (JObject fs) \<Rightarrow>
          (let doc = JObject fs; conf = empty_conf in
           case (conf_list doc ''flags'' [], conf_list doc ''cxxflags'' [], conf_list doc ''fflags'' [],
                 conf_list doc ''prefix-map'' []) of
             (Some flags, Some cxxflags, Some fflags, Some prefix_map) \<Rightarrow>
               (case parse_binfmt (conf_str doc ''binfmt'' ''elf'') of
                  Inl err \<Rightarrow> Inl err
                | Inr binfmt \<Rightarrow>
                    Inr (conf\<lparr>dc_present := True, dc_cc := conf_str doc ''cc'' (dc_cc conf),
                      dc_fc := conf_str doc ''fc'' (dc_fc conf), dc_libc := conf_str doc ''libc'' (dc_libc conf),
                      dc_interp := conf_str doc ''interp'' (dc_interp conf),
                      dc_crt := conf_str doc ''crt'' (dc_crt conf),
                      dc_runtimes := conf_str doc ''runtimes'' (dc_runtimes conf), dc_flags := flags,
                      dc_cxxflags := cxxflags, dc_fflags := map (expand_flag root) fflags,
                      dc_prefix_map := prefix_map, dc_binfmt := binfmt\<rparr>))
           | _ \<Rightarrow> Inl WrongType)
      | _ \<Rightarrow> Inl NotAnObject)"

fun conf_message :: "conf_error \<Rightarrow> string" where
  "conf_message NotAnObject = ''jig.json: not a JSON object'' @ [CHR 0x0A]"
| "conf_message (BadBinfmt binfmt) = ''jig.json: binfmt '' @ binfmt @ '' is none of elf, macho, coff'' @ [CHR 0x0A]"
| "conf_message WrongType = []"

definition package_list :: "json \<Rightarrow> string \<Rightarrow> string list option" where
  "package_list entry key =
     (case json_find entry key of None \<Rightarrow> Some [] | Some found \<Rightarrow> get_vector found)"

definition PackageFlags :: "driver_host \<Rightarrow> string \<Rightarrow> conf_error + package_cc_flags" where
  "PackageFlags h root =
     (let txt = Env (dh_env h) ''PKGS_CC'' [] in
      if txt = [] then Inr no_package_flags
      else case dh_json h txt of
        None \<Rightarrow> Inr no_package_flags
      | Some all \<Rightarrow>
          (case json_find all root of
             None \<Rightarrow> Inr no_package_flags
           | Some entry \<Rightarrow>
               (case (package_list entry ''cflags'', package_list entry ''cxxflags'', package_list entry ''ldflags'') of
                  (Some cflags, Some cxxflags, Some ldflags) \<Rightarrow>
                    Inr \<lparr>pk_cflags = cflags, pk_cxxflags = cxxflags, pk_ldflags = ldflags\<rparr>
                | _ \<Rightarrow> Inl WrongType)))"

definition EnvConf :: "driver_host \<Rightarrow> driver_conf option" where
  "EnvConf h =
     (let cc = Env (dh_env h) ''JIG_CC'' [] in if cc = [] then None else Some (empty_conf\<lparr>dc_cc := cc\<rparr>))"

definition LoadDriverConf :: "driver_host \<Rightarrow> conf_error + driver_conf option" where
  "LoadDriverConf h =
     (case dh_exe h of
        None \<Rightarrow> Inr (EnvConf h)
      | Some self \<Rightarrow>
          (let root = parent_path (parent_path self) in
           case dh_read h (path_append root ''etc/jig.json'') of
             None \<Rightarrow> Inr (EnvConf h)
           | Some txt \<Rightarrow>
               (case ParseDriverConf h txt root of
                  Inl err \<Rightarrow> Inl err
                | Inr conf \<Rightarrow>
                    if dc_cc conf = [] then Inr None
                    else case PackageFlags h root of
                      Inl err \<Rightarrow> Inl err
                    | Inr package \<Rightarrow> Inr (Some (conf\<lparr>dc_package := package\<rparr>)))))"

section \<open>The whole command line\<close>

definition driver_head :: "driver_host \<Rightarrow> driver_conf \<Rightarrow> language \<Rightarrow> user_args \<Rightarrow> string list" where
  "driver_head h conf lang user =
     (let fortran = (lang = KFortran);
          out = [if fortran then ''-Qunused-arguments'' else ''--start-no-unused-arguments''];
          out = out @ (if fortran then dc_fflags conf else dc_flags conf);
          out = out @ filter (\<lambda>flag. \<not> (IsFortifyArg flag \<and> (ua_sets_fortify user \<or> \<not> ua_optimizes user)))
            (if fortran then [] else pk_cflags (dc_package conf));
          out = out @ (if lang = KCxx then ''--driver-mode=g++'' # dc_cxxflags conf @ pk_cxxflags (dc_package conf) else []);
          out = out @ map (\<lambda>mapping. ''-ffile-prefix-map='' @ mapping)
            (if fortran then [] else dc_prefix_map conf);
          out = out @ map (\<lambda>mapping. ''-ffile-prefix-map='' @ mapping)
            (if fortran then [] else Split (Env (dh_env h) ''PKGS_PREFIX_MAP'' []) CHR '':'' False);
          out = po_always (PolicyFor (dc_binfmt conf)) out
      in if fortran then out else out @ [''--end-no-unused-arguments''])"

definition driver_tail :: "driver_host \<Rightarrow> driver_conf \<Rightarrow> language \<Rightarrow> user_args \<Rightarrow> user_args \<times> string list" where
  "driver_tail h conf lang user =
     (if ua_linking user \<and> ua_have_input user then
        let policy = PolicyFor (dc_binfmt conf);
            user = (case po_libs policy of None \<Rightarrow> user | Some libs \<Rightarrow> libs h conf user)
        in if ua_no_policy user then (user, pk_ldflags (dc_package conf))
           else po_link policy h conf (lang = KCxx) user (pk_ldflags (dc_package conf))
      else (user, []))"

definition BuildDriverArgs :: "driver_host \<Rightarrow> driver_conf \<Rightarrow> language \<Rightarrow> string list \<Rightarrow> string list" where
  "BuildDriverArgs h conf lang raw_args =
     (let user = ScanUserArgs raw_args (PolicyFor (dc_binfmt conf));
          out = driver_head h conf lang user
      in case driver_tail h conf lang user of (user, tail) \<Rightarrow> out @ ua_args user @ tail)"

section \<open>What the RUNPATH holds\<close>

definition runpath_wf :: "runpath_list \<Rightarrow> bool" where
  "runpath_wf rl \<longleftrightarrow>
     (\<exists>ps. rl_verbatim rl = concat (map (\<lambda>p. p @ '':'') ps) \<and>
       list_all (\<lambda>p. CHR '':'' \<notin> set p \<and> \<not> IsHostDir p) ps) \<and>
     distinct (rl_entries rl) \<and> list_all (\<lambda>d. \<not> IsHostDir d) (rl_entries rl)"

lemma runpath_wf_empty [simp, intro]: "runpath_wf empty_runpath"
  by (auto simp: runpath_wf_def empty_runpath_def intro: exI [of _ "[]"])

lemma runpath_wf_Add [simp, intro]: "runpath_wf rl \<Longrightarrow> runpath_wf (Add dir rl)"
  by (auto simp: runpath_wf_def Add_def)

lemma runpath_wf_part:
  assumes "runpath_wf rl" "CHR '':'' \<notin> set p" "\<not> IsHostDir p"
  shows "runpath_wf (rl\<lparr>rl_verbatim := rl_verbatim rl @ p @ '':''\<rparr>)"
proof -
  from assms(1) obtain ps where "rl_verbatim rl = concat (map (\<lambda>p. p @ '':'') ps)"
    and "list_all (\<lambda>p. CHR '':'' \<notin> set p \<and> \<not> IsHostDir p) ps"
    unfolding runpath_wf_def by blast
  then show ?thesis using assms by (auto simp: runpath_wf_def intro!: exI [of _ "ps @ [p]"])
qed

lemma runpath_wf_AddVerbatim [simp, intro]:
  assumes "runpath_wf rl" shows "runpath_wf (AddVerbatim rpath rl)"
proof -
  have "\<forall>p\<in>set ps. CHR '':'' \<notin> set p \<Longrightarrow> runpath_wf rl \<Longrightarrow>
      runpath_wf (foldl (\<lambda>rl part. if \<not> IsHostDir part then rl\<lparr>rl_verbatim := rl_verbatim rl @ part @ '':''\<rparr> else rl)
        rl ps)" for ps
    by (induction ps arbitrary: rl) (simp_all add: runpath_wf_part)
  then show ?thesis using assms Split_fields unfolding AddVerbatim_def by blast
qed

lemma runpath_wf_scan_libs: "runpath_wf (ls_runpath s) \<Longrightarrow> runpath_wf (ls_runpath (scan_libs h args s))"
  by (induction args arbitrary: s) (simp_all add: Let_def split: option.split)

lemma runpath_wf_entries:
  assumes "runpath_wf rl" shows "runpath_wf (snd (AddRunpathEntries h conf cxx args rl))"
proof -
  have dirs: "runpath_wf rp \<Longrightarrow> runpath_wf (foldl (\<lambda>rp dir. if P dir then Add (f dir) rp else rp) rp ds)" for rp ds P f
    by (induction ds arbitrary: rp) simp_all
  show ?thesis
    unfolding AddRunpathEntries_def Let_def using assms
    by (auto intro!: runpath_wf_Add dirs runpath_wf_scan_libs)
qed

lemma runpath_wf_collect:
  "runpath_wf (ua_runpath user) \<Longrightarrow> runpath_wf (ua_runpath (snd (CollectRunpath h conf cxx user)))"
  using runpath_wf_entries [of "ua_runpath user" h conf cxx "ua_args user @ pk_ldflags (dc_package conf)"]
  by (simp add: CollectRunpath_def case_prod_beta)

lemma runpath_wf_scan_args: "runpath_wf (ua_runpath user) \<Longrightarrow> runpath_wf (ua_runpath (scan_args policy raw user))"
proof (induction policy raw user rule: scan_args.induct)
  case (2 policy arg rest user)
  have "ua_runpath (scan_arg policy arg rest user) = ua_runpath user"
    by (simp add: scan_arg_def Let_def split: option.split)
  then show ?case using 2 by (simp split: option.split)
qed simp

lemma IsHostDir_dot: "IsHostDir (dir @ ''/.'') = IsHostDir dir"
  by (cases dir rule: list.exhaust; cases "tl dir"; cases "tl (tl dir)"; cases "tl (tl (tl dir))")
    (auto simp: IsHostDir_def)

lemma Split_concat_fields:
  "list_all (\<lambda>p. sep \<notin> set p) ps \<Longrightarrow> Split (concat (map (\<lambda>p. p @ [sep]) ps) @ rest) sep True = ps @ Split rest sep True"
  by (induction ps) (simp_all add: Split_sep)

lemma Render_text:
  "Render rl libs = rl_verbatim rl @ concat (map (\<lambda>p. p @ '':'') (map (\<lambda>e. e @ ''/.'') (rl_entries rl))) @
     ''/'' @ replicate (pad_length rl libs) CHR ''_''"
proof -
  have "foldl (\<lambda>out entry. out @ entry @ ''/.:'') out es = out @ concat (map (\<lambda>p. p @ '':'') (map (\<lambda>e. e @ ''/.'') es))"
    for out es by (induction es arbitrary: out) simp_all
  then show ?thesis by (simp add: Render_def Let_def)
qed

lemma pad_not_host: "\<not> IsHostDir (''/'' @ replicate n CHR ''_'')"
  by (cases n) (simp_all add: IsHostDir_def)

text \<open>The parts of the rendered text: the ones of the build system, the entries, and the pad.\<close>

lemma Render_parts:
  assumes "runpath_wf rl" and "list_all (\<lambda>e. CHR '':'' \<notin> set e) (rl_entries rl)"
  shows "list_all (\<lambda>dir. \<not> IsHostDir dir) (Split (Render rl libs) CHR '':'' True)"
proof -
  obtain ps where v: "rl_verbatim rl = concat (map (\<lambda>p. p @ '':'') ps)"
    and ps: "list_all (\<lambda>p. CHR '':'' \<notin> set p \<and> \<not> IsHostDir p) ps"
    using assms(1) unfolding runpath_wf_def by blast
  let ?es = "map (\<lambda>e. e @ ''/.'') (rl_entries rl)"
  let ?pad = "''/'' @ replicate (pad_length rl libs) CHR ''_''"
  have "list_all (\<lambda>p. CHR '':'' \<notin> set p) (ps @ ?es)" using ps assms(2) by (auto simp: list_all_iff)
  then have "Split (concat (map (\<lambda>p. p @ '':'') (ps @ ?es)) @ ?pad) CHR '':'' True = (ps @ ?es) @ Split ?pad CHR '':'' True"
    by (rule Split_concat_fields)
  moreover have "Split ?pad CHR '':'' True = [?pad]" by (subst Split_field) auto
  moreover have "Render rl libs = concat (map (\<lambda>p. p @ '':'') (ps @ ?es)) @ ?pad" by (simp add: Render_text v)
  moreover have "list_all (\<lambda>dir. \<not> IsHostDir dir) ?es"
    using assms(1) by (simp add: runpath_wf_def list_all_iff IsHostDir_dot)
  ultimately show ?thesis using ps pad_not_host by (auto simp: list_all_iff)
qed

lemma length_Render:
  "length (Render rl libs) = length (rl_verbatim rl) + length (concat (rl_entries rl)) +
     3 * length (rl_entries rl) + kRunpathSlack * max 1 (length (rl_entries rl) + count_list (rl_verbatim rl) CHR '':'') +
     kNeededSlack * libs"
proof -
  have "length (concat (map (\<lambda>p. p @ '':'') (map (\<lambda>e. e @ ''/.'') es))) = length (concat es) + 3 * length es"
    for es :: "string list" by (induction es) simp_all
  moreover have "Suc (pad_length rl libs) =
      kRunpathSlack * max 1 (length (rl_entries rl) + count_list (rl_verbatim rl) CHR '':'') + kNeededSlack * libs"
    by (cases "length (rl_entries rl) + count_list (rl_verbatim rl) CHR '':''")
      (simp_all add: pad_length_def Let_def kRunpathSlack_def)
  ultimately show ?thesis by (simp add: Render_text)
qed

section \<open>What the user's arguments become\<close>

lemma scan_args_kept:
  "(\<And>arg rest kept. po_arg policy arg = Some kept \<Longrightarrow>
      \<not> (po_takes_rpath policy \<and> TakeRpathArg arg rest \<noteq> None) \<Longrightarrow> P kept) \<Longrightarrow>
   list_all P (ua_args user) \<Longrightarrow> list_all P (ua_args (scan_args policy raw user))"
proof (induction policy raw user rule: scan_args.induct)
  case (2 policy arg rest user)
  show ?case
  proof (cases "if po_takes_rpath policy then TakeRpathArg arg rest else None")
    case None
    have "po_arg policy arg = Some kept \<Longrightarrow> P kept" for kept
      using None by (intro "2.prems"(1) [of arg kept rest]) (auto split: if_splits)
    then have "list_all P (ua_args (scan_arg policy arg rest user))"
      using "2.prems"(2) by (auto simp: scan_arg_def Let_def split: option.split)
    then show ?thesis using None "2.IH"(1) [OF None "2.prems"(1)] by simp
  next
    case (Some x)
    obtain rpath rest' where x: "x = (rpath, rest')" by fastforce
    show ?thesis using Some "2.IH"(2) [OF Some x [symmetric] "2.prems"(1)] "2.prems"(2) by (simp add: x)
  qed
qed simp

abbreviation is_rpath :: "string \<Rightarrow> bool" where
  "is_rpath arg \<equiv> starts_with arg ''-Wl,-rpath,''"

lemma TakeRpathArg_rpath: "is_rpath arg \<Longrightarrow> \<exists>v rest'. TakeRpathArg arg rest = Some (v, rest')"
  by (auto simp: TakeRpathArg.simps)

lemma elf_user_args:
  "list_all (\<lambda>arg. \<not> is_rpath arg \<and> \<not> theirs arg) (ua_args (ScanUserArgs raw (PolicyFor KElf)))"
  unfolding ScanUserArgs_def
proof (rule scan_args_kept)
  fix arg rest kept
  assume "po_arg (PolicyFor KElf) arg = Some kept" "\<not> (po_takes_rpath (PolicyFor KElf) \<and> TakeRpathArg arg rest \<noteq> None)"
  then show "\<not> is_rpath kept \<and> \<not> theirs kept"
    using TakeRpathArg_rpath [of arg rest] by (auto simp: ElfArg_def split: if_splits)
qed (simp add: empty_user_def)

lemma macho_user_args: "ua_args (ScanUserArgs raw (PolicyFor KMachO)) = raw"
proof -
  have "ua_args (scan_args (PolicyFor KMachO) raw user) = ua_args user @ raw" for user
    by (induction "PolicyFor KMachO" raw user rule: scan_args.induct)
      (simp_all add: scan_arg_def KeepArg_def Let_def split: option.split)
  then show ?thesis by (simp add: ScanUserArgs_def empty_user_def)
qed

definition conf_words :: "driver_conf \<Rightarrow> string list" where
  "conf_words conf = dc_crt conf # dc_flags conf @ dc_fflags conf @ dc_cxxflags conf @
     pk_cflags (dc_package conf) @ pk_cxxflags (dc_package conf) @ pk_ldflags (dc_package conf)"

lemma driver_head_words:
  assumes "arg \<in> set (driver_head h conf lang user)" "dc_binfmt conf = KElf"
  shows "arg \<in> set (conf_words conf) \<or> \<not> is_rpath arg \<and> \<not> theirs arg"
  using assms by (auto simp: driver_head_def conf_words_def ElfFlags_def theirs_def Let_def split: if_splits)

lemma ElfLink_user: "fst (ElfLink h conf cxx user out) = snd (CollectRunpath h conf cxx user)"
  by (simp add: ElfLink_def Let_def split: prod.split)

lemma ElfLink_rpath:
  assumes "arg \<in> set (snd (ElfLink h conf cxx user out))" "is_rpath arg"
  shows "arg \<in> set out \<or> arg = dc_crt conf \<or>
    arg = ''-Wl,-rpath,'' @ Render (ua_runpath (fst (ElfLink h conf cxx user out))) (fst (CollectRunpath h conf cxx user))"
  using assms by (auto simp: ElfLink_def Let_def split: prod.splits if_splits)

lemma runpath_wf_driver:
  assumes "dc_binfmt conf = KElf"
  shows "runpath_wf (ua_runpath (fst (driver_tail h conf lang (ScanUserArgs raw (PolicyFor KElf)))))"
proof -
  have "runpath_wf (ua_runpath (ScanUserArgs raw (PolicyFor KElf)))"
    unfolding ScanUserArgs_def by (rule runpath_wf_scan_args) (simp add: empty_user_def)
  then show ?thesis
    using assms by (simp add: driver_tail_def Let_def ElfLink_user runpath_wf_collect)
qed

lemma driver_tail_args:
  "dc_binfmt conf \<noteq> KCoff \<Longrightarrow> ua_args (fst (driver_tail h conf lang user)) = ua_args user"
  by (cases "dc_binfmt conf")
    (simp_all add: driver_tail_def Let_def ElfLink_user CollectRunpath_def MachOLink_def split: prod.split)

lemma BuildDriverArgs_parts:
  "BuildDriverArgs h conf lang raw =
     (let user = ScanUserArgs raw (PolicyFor (dc_binfmt conf)); t = driver_tail h conf lang user in
      driver_head h conf lang user @ ua_args (fst t) @ snd t)"
  by (simp add: BuildDriverArgs_def Let_def split: prod.split)

text \<open>C10: on an ELF link no RUNPATH that reaches the real linker names a directory of the host system.
  Whatever the build system requested, every element of every \<open>-Wl,-rpath,\<close> argument of the command line
  is outside \<open>/usr\<close>, \<open>/lib\<close> and \<open>/opt\<close>, as long as the configuration itself passes no such argument and no
  collected directory has a colon in its name.\<close>

theorem BuildDriverArgs_no_host_runpath:
  assumes "dc_binfmt conf = KElf"
    and "list_all (\<lambda>w. \<not> is_rpath w) (conf_words conf)"
    and "list_all (\<lambda>e. CHR '':'' \<notin> set e)
      (rl_entries (ua_runpath (fst (driver_tail h conf lang (ScanUserArgs raw (PolicyFor KElf))))))"
    and "''-Wl,-rpath,'' @ rpath \<in> set (BuildDriverArgs h conf lang raw)"
  shows "list_all (\<lambda>dir. \<not> IsHostDir dir) (Split rpath CHR '':'' True)"
proof -
  let ?arg = "''-Wl,-rpath,'' @ rpath"
  let ?user = "ScanUserArgs raw (PolicyFor KElf)"
  let ?tail = "driver_tail h conf lang ?user"
  have conf: "?arg \<notin> set (conf_words conf)" using assms(2) by (auto simp: list_all_iff)
  have "?arg \<notin> set (driver_head h conf lang ?user)" using driver_head_words assms(1) conf by fastforce
  moreover have "?arg \<notin> set (ua_args (fst ?tail))"
    using elf_user_args [of raw] assms(1) by (auto simp: driver_tail_args list_all_iff)
  ultimately have "?arg \<in> set (snd ?tail)"
    using assms(4) unfolding BuildDriverArgs_parts assms(1) Let_def set_append by blast
  moreover have "?arg \<notin> set (pk_ldflags (dc_package conf))" "?arg \<noteq> dc_crt conf"
    using conf by (simp_all add: conf_words_def)
  ultimately have "\<exists>libs. ?arg = ''-Wl,-rpath,'' @ Render (ua_runpath (fst ?tail)) libs"
    using ElfLink_rpath [of ?arg] assms(1)
    by (fastforce simp: driver_tail_def Let_def split: if_splits)
  then show ?thesis
    using Render_parts [OF runpath_wf_driver [OF assms(1)] assms(3)] by auto
qed

definition demo_driver_host :: driver_host where
  "demo_driver_host = \<lparr>dh_store = nix_store, dh_canonical = Some, dh_exists = (\<lambda>p. p = ''/nix/store/z/lib/libz.so''),
     dh_read = Map.empty, dh_env = Map.empty, dh_json = (\<lambda>_. None), dh_exe = None\<rparr>"

definition demo_conf :: driver_conf where
  "demo_conf = empty_conf\<lparr>dc_cc := ''clang'', dc_libc := ''/nix/store/g'', dc_flags := [''-O2''], dc_present := True\<rparr>"

definition demo_link_args :: "string list" where
  "demo_link_args = [''-Wl,-rpath,/usr/lib:/build'', ''-Wl,--dynamic-linker=/lib/ld.so'', ''x.o'', ''-L/nix/store/z/lib'', ''-lz'']"

lemma demo_entries: "rl_entries (ua_runpath (fst (driver_tail demo_driver_host demo_conf KC
     (ScanUserArgs demo_link_args (PolicyFor KElf))))) = [''/nix/store/z/lib'', ''/nix/store/g/lib'']"
  by code_simp

theorem BuildDriverArgs_no_host_runpath_witness:
  "list_all (\<lambda>dir. \<not> IsHostDir dir)
     (Split (''/build:/nix/store/z/lib/.:/nix/store/g/lib/.:/'' @ replicate 223 CHR ''_'') CHR '':'' True)"
proof (rule BuildDriverArgs_no_host_runpath [of demo_conf demo_driver_host KC demo_link_args])
  show "''-Wl,-rpath,'' @ ''/build:/nix/store/z/lib/.:/nix/store/g/lib/.:/'' @ replicate 223 CHR ''_''
      \<in> set (BuildDriverArgs demo_driver_host demo_conf KC demo_link_args)" by code_simp
qed (simp_all add: demo_entries, code_simp+)

definition elf_interp :: "driver_conf \<Rightarrow> string" where
  "elf_interp conf = ''-Wl,--dynamic-linker='' @ dc_libc conf @ ''/lib/'' @
     (if dc_crt conf = [] then [] else concat (replicate kInterpSlack ''./'')) @ dc_interp conf"

lemma ElfLink_interp:
  assumes "\<not> ua_shared user" "\<not> theirs (dc_crt conf)"
  shows "filter theirs (snd (ElfLink h conf cxx user out)) = filter theirs out @ [elf_interp conf]"
proof -
  have "\<not> theirs (''-Wl,-rpath,'' @ r)" for r by (simp add: theirs_def)
  moreover have "\<not> ua_shared (snd (CollectRunpath h conf cxx user))"
    using assms by (simp add: CollectRunpath_def case_prod_beta)
  ultimately show ?thesis
    using assms by (simp add: ElfLink_def case_prod_beta Let_def elf_interp_def) (simp add: theirs_def)
qed



end
