(* ===== verification/Nix_Store.thy ===== *)
theory Nix_Store
  imports Sha256 Driver "HOL-Library.List_Lexorder" "HOL-Library.Monad_Syntax"
begin

text \<open>
  The second half of \<open>nix_store_mode.cc\<close>: derivations as ATerm text, the client of the Nix daemon, and the
  \<open>nix-store\<close> mode.  The JSON library is a parameter; where it would abort the process on a value of the
  wrong type the model has \<open>None\<close>.  The connection is the chunks the kernel delivers and what it accepts.
  The lemmas show that the text determines the derivation, and that the client follows the protocol
  however the stream is cut.
\<close>

section \<open>ATerm text\<close>

definition quote_char :: "char \<Rightarrow> string" where
  "quote_char c =
     (if c = CHR 0x22 then [CHR 0x5C, CHR 0x22]
      else if c = CHR 0x5C then [CHR 0x5C, CHR 0x5C]
      else if c = CHR 0x0A then [CHR 0x5C, CHR ''n'']
      else if c = CHR 0x0D then [CHR 0x5C, CHR ''r'']
      else if c = CHR 0x09 then [CHR 0x5C, CHR ''t'']
      else [c])"

definition Quote :: "string \<Rightarrow> string" where
  "Quote s = [CHR 0x22] @ concat (map quote_char s) @ [CHR 0x22]"

fun list_items :: "('a \<Rightarrow> string) \<Rightarrow> bool \<Rightarrow> 'a list \<Rightarrow> string" where
  "list_items render first [] = []"
| "list_items render first (item # items) =
     (if first then [] else '','') @ render item @ list_items render False items"

definition List :: "('a \<Rightarrow> string) \<Rightarrow> 'a list \<Rightarrow> string" where
  "List render items = ''['' @ list_items render True items @ '']''"

record derivation =
  dv_outputs :: "(string \<times> string \<times> string \<times> string) list"
  dv_input_drvs :: "(string \<times> string list) list"
  dv_input_srcs :: "string list"
  dv_system :: string
  dv_builder :: string
  dv_args :: "string list"
  dv_env :: "(string \<times> string) list"

fun output_text :: "string \<times> string \<times> string \<times> string \<Rightarrow> string" where
  "output_text (name, path, algo, hash) =
     ''('' @ Quote name @ '','' @ Quote path @ '','' @ Quote algo @ '','' @ Quote hash @ '')''"

fun input_text :: "string \<times> string list \<Rightarrow> string" where
  "input_text (path, names) = ''('' @ Quote path @ '','' @ List Quote names @ '')''"

fun env_text :: "string \<times> string \<Rightarrow> string" where
  "env_text (key, value) = ''('' @ Quote key @ '','' @ Quote value @ '')''"

definition aterm_text :: "derivation \<Rightarrow> string" where
  "aterm_text d =
     ''Derive('' @ List output_text (dv_outputs d) @ '','' @ List input_text (dv_input_drvs d) @ '','' @
     List Quote (dv_input_srcs d) @ '','' @ Quote (dv_system d) @ '','' @ Quote (dv_builder d) @ '','' @
     List Quote (dv_args d) @ '','' @ List env_text (dv_env d) @ '')''"

section \<open>From JSON\<close>

fun map_emplace :: "string \<Rightarrow> 'a \<Rightarrow> (string \<times> 'a) list \<Rightarrow> (string \<times> 'a) list" where
  "map_emplace k v [] = [(k, v)]"
| "map_emplace k v ((k', v') # m) =
     (if k < k' then (k, v) # (k', v') # m
      else if k = k' then (k', v') # m
      else (k', v') # map_emplace k v m)"

definition to_map :: "(string \<times> 'a) list \<Rightarrow> (string \<times> 'a) list" where
  "to_map items = foldl (\<lambda>m (k, v). map_emplace k v m) [] items"

text \<open>\<open>items\<close>: the members of an object, the elements of an array under their index, a scalar under no key.\<close>

definition json_items :: "json \<Rightarrow> (string \<times> json) list" where
  "json_items j =
     (case j of
        JObject fs \<Rightarrow> fs
      | JArray js \<Rightarrow> zip (map to_string [0..<length js]) js
      | JNull \<Rightarrow> []
      | _ \<Rightarrow> [([], j)])"

definition value_json :: "json \<Rightarrow> string \<Rightarrow> json \<Rightarrow> json option" where
  "value_json j key dflt = (case j of JObject fs \<Rightarrow> Some (case map_of fs key of None \<Rightarrow> dflt | Some v \<Rightarrow> v) | _ \<Rightarrow> None)"

definition value_string :: "json \<Rightarrow> string \<Rightarrow> string option" where
  "value_string j key =
     (case value_json j key (JString []) of Some (JString s) \<Rightarrow> Some s | _ \<Rightarrow> None)"

definition value_strings :: "json \<Rightarrow> string \<Rightarrow> string list option" where
  "value_strings j key = Option.bind (value_json j key (JArray [])) get_vector"

fun all_some :: "'a option list \<Rightarrow> 'a list option" where
  "all_some [] = Some []"
| "all_some (x # xs) = Option.bind x (\<lambda>y. map_option ((#) y) (all_some xs))"

definition drv_inputs :: "(string \<times> json) list \<Rightarrow> (string \<times> string list) list option" where
  "drv_inputs items =
     map_option to_map (all_some (map (\<lambda>(path, outs). map_option (\<lambda>names. (path, sort names)) (get_vector outs)) items))"

definition drv_outputs :: "(string \<times> json) list \<Rightarrow> (string \<times> string \<times> string \<times> string) list option" where
  "drv_outputs items = all_some (map (\<lambda>(name, spec). do {
     path \<leftarrow> value_string spec ''path'';
     algo \<leftarrow> value_string spec ''hashAlgo'';
     hash \<leftarrow> value_string spec ''hash'';
     Some (name, path, algo, hash)
   }) (to_map items))"

fun env_strings :: "(string \<times> json) list \<Rightarrow> (string \<times> string) list option" where
  "env_strings [] = Some []"
| "env_strings ((k, JString s) # items) = map_option ((#) (k, s)) (env_strings items)"
| "env_strings (_ # items) = None"

text \<open>The outer \<open>None\<close> is an abort, an empty text a derivation that is refused.\<close>

definition DerivationToATerm :: "json option \<Rightarrow> string option" where
  "DerivationToATerm doc =
     (case doc of
        Some (JObject fs) \<Rightarrow> do {
          let drv = JObject fs;
          outputs \<leftarrow> value_json drv ''outputs'' (JObject []);
          input_drvs \<leftarrow> value_json drv ''inputDrvs'' (JObject []);
          inputs \<leftarrow> drv_inputs (json_items input_drvs);
          input_srcs \<leftarrow> value_strings drv ''inputSrcs'';
          env \<leftarrow> value_json drv ''env'' (JObject []);
          (case env_strings (json_items env) of
             None \<Rightarrow> Some []
           | Some vars \<Rightarrow> do {
               args \<leftarrow> value_strings drv ''args'';
               outs \<leftarrow> drv_outputs (json_items outputs);
               sys \<leftarrow> value_string drv ''system'';
               builder \<leftarrow> value_string drv ''builder'';
               Some (aterm_text \<lparr>dv_outputs = outs, dv_input_drvs = inputs, dv_input_srcs = sort input_srcs,
                 dv_system = sys, dv_builder = builder, dv_args = args, dv_env = to_map vars\<rparr>)
             })
        }
      | _ \<Rightarrow> Some [])"

definition FetchurlDerivation :: "(json \<Rightarrow> json option) \<Rightarrow> json \<Rightarrow> string \<Rightarrow> string option" where
  "FetchurlDerivation reparse file out = do {
     name \<leftarrow> value_string file ''name'';
     algo \<leftarrow> value_string file ''algo'';
     sri \<leftarrow> value_string file ''sri'';
     url \<leftarrow> value_string file ''url'';
     hex \<leftarrow> value_string file ''hex'';
     DerivationToATerm (reparse (JObject [
       (''name'', JString name),
       (''system'', JString ''builtin''),
       (''builder'', JString ''builtin:fetchurl''),
       (''args'', JArray []),
       (''outputs'', JObject [(''out'', JObject [(''path'', JString out), (''hashAlgo'', JString algo), (''hash'', JString hex)])]),
       (''inputDrvs'', JObject []),
       (''inputSrcs'', JArray []),
       (''env'', JObject [
          (''name'', JString name),
          (''out'', JString out),
          (''outputHash'', JString sri),
          (''outputHashAlgo'', JString (if starts_with sri (algo @ ''-'') then [] else algo)),
          (''outputHashMode'', JString ''flat''),
          (''url'', JString url),
          (''urls'', JString url),
          (''executable'', JString []),
          (''unpack'', JString []),
          (''impureEnvVars'', JString ''http_proxy https_proxy ftp_proxy all_proxy no_proxy''),
          (''preferLocalBuild'', JString ''1''),
          (''system'', JString ''builtin''),
          (''builder'', JString ''builtin:fetchurl'')])]))
   }"

section \<open>The connection\<close>

definition kWorkerMagic1 :: "64 word" where "kWorkerMagic1 = 0x6e697863"
definition kWorkerMagic2 :: "64 word" where "kWorkerMagic2 = 0x6478696f"
definition kProtocolVersion :: "64 word" where "kProtocolVersion = push_bit 8 1 OR 38"
definition kStderrNext :: "64 word" where "kStderrNext = 0x6f6c6d67"
definition kStderrLast :: "64 word" where "kStderrLast = 0x616c7473"
definition kStderrError :: "64 word" where "kStderrError = 0x63787470"
definition kStderrStartActivity :: "64 word" where "kStderrStartActivity = 0x53545254"
definition kStderrStopActivity :: "64 word" where "kStderrStopActivity = 0x53544f50"
definition kStderrResult :: "64 word" where "kStderrResult = 0x52534c54"
definition kOpAddToStore :: "64 word" where "kOpAddToStore = 7"
definition kOpSubmitOutput :: "64 word" where "kOpSubmitOutput = 1000"
definition kWordBytes :: nat where "kWordBytes = 8"
definition kMaxString :: "64 word" where "kMaxString = push_bit 20 64"

lemmas message_defs = kStderrNext_def kStderrLast_def kStderrError_def kStderrStartActivity_def
  kStderrStopActivity_def kStderrResult_def

text \<open>An empty chunk stands for the end of the stream or an error; a write that accepts nothing fails.\<close>

record nix_conn =
  nc_chunks :: "string list"
  nc_accepts :: "nat list"
  nc_out :: string
  nc_sent :: string
  nc_log :: string

definition word_byte :: "64 word \<Rightarrow> nat \<Rightarrow> char" where
  "word_byte v i = char_of (unat (drop_bit (i * 8) v AND 0xff))"

definition word_bytes :: "64 word \<Rightarrow> string" where
  "word_bytes v = map (word_byte v) [0..<kWordBytes]"

definition WriteWord :: "64 word \<Rightarrow> nix_conn \<Rightarrow> nix_conn" where
  "WriteWord v c = c\<lparr>nc_out := nc_out c @ word_bytes v\<rparr>"

definition padding :: "nat \<Rightarrow> nat" where
  "padding n = (kWordBytes - n mod kWordBytes) mod kWordBytes"

definition WriteString :: "string \<Rightarrow> nix_conn \<Rightarrow> nix_conn" where
  "WriteString s c =
     (let c = WriteWord (word_of_nat (length s)) c in
      c\<lparr>nc_out := nc_out c @ s @ replicate (padding (length s)) CHR 0x00\<rparr>)"

fun Flush_loop :: "string \<Rightarrow> nat list \<Rightarrow> string \<Rightarrow> bool \<times> nat list \<times> string" where
  "Flush_loop [] accepts sent = (True, accepts, sent)"
| "Flush_loop (b # bs) [] sent = (False, [], sent)"
| "Flush_loop (b # bs) (a # accepts) sent =
     (if a = 0 then (False, accepts, sent) else Flush_loop (drop a (b # bs)) accepts (sent @ take a (b # bs)))"

definition Flush :: "nix_conn \<Rightarrow> bool \<times> nix_conn" where
  "Flush c =
     (case Flush_loop (nc_out c) (nc_accepts c) (nc_sent c) of
        (True, accepts, sent) \<Rightarrow> (True, c\<lparr>nc_out := [], nc_accepts := accepts, nc_sent := sent\<rparr>)
      | (False, accepts, sent) \<Rightarrow> (False, c\<lparr>nc_accepts := accepts, nc_sent := sent\<rparr>))"

definition conn_read :: "nat \<Rightarrow> string list \<Rightarrow> (string \<times> string list) option" where
  "conn_read n chunks =
     (case chunks of
        [] \<Rightarrow> None
      | x # xs \<Rightarrow> if x = [] then None else Some (take n x, if length x \<le> n then xs else drop n x # xs))"

function ReadBytes_loop :: "nat \<Rightarrow> string list \<Rightarrow> string \<Rightarrow> string option \<times> string list" where
  "ReadBytes_loop n chunks got =
     (if n = 0 then (Some got, chunks)
      else case conn_read n chunks of
        None \<Rightarrow> (None, chunks)
      | Some (part, chunks') \<Rightarrow> ReadBytes_loop (n - length part) chunks' (got @ part))"
  by pat_completeness auto

termination ReadBytes_loop
  by (relation "measure (\<lambda>(n, _, _). n)") (auto simp: conn_read_def split: list.splits if_splits)

declare ReadBytes_loop.simps [simp del]

definition ReadBytes :: "nat \<Rightarrow> nix_conn \<Rightarrow> string option \<times> nix_conn" where
  "ReadBytes n c = (case ReadBytes_loop n (nc_chunks c) [] of (r, chunks) \<Rightarrow> (r, c\<lparr>nc_chunks := chunks\<rparr>))"

definition bytes_word :: "string \<Rightarrow> 64 word" where
  "bytes_word bs =
     foldl (\<lambda>v i. v OR push_bit (i * 8) (word_of_nat (of_char (bs ! i)))) 0 [0..<kWordBytes]"

definition ReadWord :: "nix_conn \<Rightarrow> 64 word option \<times> nix_conn" where
  "ReadWord c = (case ReadBytes kWordBytes c of (r, c) \<Rightarrow> (map_option bytes_word r, c))"

definition ReadString :: "nix_conn \<Rightarrow> string option \<times> nix_conn" where
  "ReadString c =
     (case ReadWord c of
        (None, c) \<Rightarrow> (None, c)
      | (Some n, c) \<Rightarrow>
          if n > kMaxString then (None, c)
          else case ReadBytes (unat n) c of
            (None, c) \<Rightarrow> (None, c)
          | (Some s, c) \<Rightarrow>
              (case ReadBytes (padding (unat n)) c of
                 (None, c) \<Rightarrow> (None, c)
               | (Some _, c) \<Rightarrow> (Some s, c)))"

fun SkipStrings_loop :: "nat \<Rightarrow> nix_conn \<Rightarrow> bool \<times> nix_conn" where
  "SkipStrings_loop 0 c = (True, c)"
| "SkipStrings_loop (Suc n) c =
     (case ReadString c of (None, c) \<Rightarrow> (False, c) | (Some _, c) \<Rightarrow> SkipStrings_loop n c)"

definition SkipStrings :: "nix_conn \<Rightarrow> bool \<times> nix_conn" where
  "SkipStrings c = (case ReadWord c of (None, c) \<Rightarrow> (False, c) | (Some n, c) \<Rightarrow> SkipStrings_loop (unat n) c)"

text \<open>\<open>value_or(0)\<close>: an unreadable word counts as 0.\<close>

definition word_or_0 :: "64 word option \<Rightarrow> 64 word" where
  "word_or_0 w = (case w of None \<Rightarrow> 0 | Some v \<Rightarrow> v)"

fun SkipFields_loop :: "nat \<Rightarrow> nix_conn \<Rightarrow> nix_conn" where
  "SkipFields_loop 0 c = c"
| "SkipFields_loop (Suc n) c =
     (case ReadWord c of (w, c) \<Rightarrow>
        SkipFields_loop n (if word_or_0 w = 1 then snd (ReadString c) else snd (ReadWord c)))"

definition SkipFields :: "nix_conn \<Rightarrow> nix_conn" where
  "SkipFields c = (case ReadWord c of (w, c) \<Rightarrow> SkipFields_loop (unat (word_or_0 w)) c)"

definition log_line :: "string \<Rightarrow> nix_conn \<Rightarrow> nix_conn" where
  "log_line s c = c\<lparr>nc_log := nc_log c @ s @ [CHR 0x0A]\<rparr>"

text \<open>One message of the daemon: whether to go on, or the answer of the loop.\<close>

definition drain_message :: "64 word \<Rightarrow> nix_conn \<Rightarrow> bool option \<times> nix_conn" where
  "drain_message msg c =
     (if msg = kStderrLast then (Some True, c)
      else if msg = kStderrError then
        (case ReadString (snd (ReadString (snd (ReadWord (snd (ReadString c)))))) of
           (s, c) \<Rightarrow> (Some False, log_line (''nix-daemon: '' @ (case s of None \<Rightarrow> ''?'' | Some t \<Rightarrow> t)) c))
      else if msg = kStderrNext then
        (case ReadString c of (s, c) \<Rightarrow> (None, log_line (case s of None \<Rightarrow> [] | Some t \<Rightarrow> t) c))
      else if msg = kStderrStartActivity then
        (None, snd (ReadWord (SkipFields (snd (ReadString (snd (ReadWord (snd (ReadWord (snd (ReadWord c)))))))))))
      else if msg = kStderrStopActivity then (None, snd (ReadWord c))
      else if msg = kStderrResult then (None, SkipFields (snd (ReadWord (snd (ReadWord c)))))
      else (Some False, log_line (''jig nix-store: unexpected daemon message 0x'' @ to_base 16 (unat msg)) c))"

text \<open>Every read consumes what it returns, and nothing gives bytes back.\<close>

definition unread :: "nix_conn \<Rightarrow> nat" where
  "unread c = length (concat (nc_chunks c))"

lemma conn_read_consumes:
  "conn_read n chunks = Some (part, chunks') \<Longrightarrow> length (concat chunks) = length part + length (concat chunks')"
  by (auto simp: conn_read_def split: list.splits if_splits)

lemma conn_read_part: "n \<noteq> 0 \<Longrightarrow> conn_read n chunks = Some (part, chunks') \<Longrightarrow> part \<noteq> [] \<and> length part \<le> n"
  by (auto simp: conn_read_def split: list.splits if_splits)

lemma ReadBytes_loop_consumes:
  "ReadBytes_loop n chunks got = (r, chunks') \<Longrightarrow>
   length (concat chunks') + (if r = None then 0 else n) \<le> length (concat chunks)"
proof (induction n chunks got rule: ReadBytes_loop.induct)
  case (1 n chunks got)
  show ?case
  proof (cases "n = 0")
    case True
    then show ?thesis using "1.prems" by (auto simp: ReadBytes_loop.simps [of 0])
  next
    case False
    show ?thesis
    proof (cases "conn_read n chunks")
      case None
      then show ?thesis using "1.prems" False by (simp add: ReadBytes_loop.simps [of n chunks])
    next
      case (Some x)
      obtain part rest where x: "x = (part, rest)" by fastforce
      have "ReadBytes_loop (n - length part) rest (got @ part) = (r, chunks')"
        using "1.prems" False Some x by (simp add: ReadBytes_loop.simps [of n chunks])
      from "1.IH" [OF False Some x [symmetric] this] conn_read_consumes [OF Some [unfolded x]]
        conn_read_part [OF False Some [unfolded x]]
      show ?thesis by (auto split: if_splits)
    qed
  qed
qed

lemma ReadBytes_unread: "ReadBytes n c = (r, c') \<Longrightarrow> unread c' + (if r = None then 0 else n) \<le> unread c"
  using ReadBytes_loop_consumes [of n "nc_chunks c" "[]" r "nc_chunks c'"]
  by (auto simp: ReadBytes_def unread_def split: prod.splits)

lemma ReadWord_unread: "ReadWord c = (r, c') \<Longrightarrow> unread c' + (if r = None then 0 else 8) \<le> unread c"
  using ReadBytes_unread [of 8 c "fst (ReadBytes 8 c)" "snd (ReadBytes 8 c)", OF prod.collapse [symmetric]]
  by (auto simp: ReadWord_def kWordBytes_def case_prod_beta split: if_splits)

named_theorems unread_intros

lemma unread_ReadBytes [unread_intros]: "unread c \<le> m \<Longrightarrow> unread (snd (ReadBytes n c)) \<le> m"
  using ReadBytes_unread [of n c "fst (ReadBytes n c)" "snd (ReadBytes n c)"] by simp

lemma unread_ReadWord [unread_intros]: "unread c \<le> m \<Longrightarrow> unread (snd (ReadWord c)) \<le> m"
  using ReadWord_unread [of c "fst (ReadWord c)" "snd (ReadWord c)"] by simp

lemma unread_ReadString [unread_intros]:
  assumes "unread c \<le> m" shows "unread (snd (ReadString c)) \<le> m"
proof -
  obtain w c1 where w: "ReadWord c = (w, c1)" by fastforce
  have c1: "unread c1 \<le> m" using unread_ReadWord [OF assms] w by simp
  obtain s c2 where s: "ReadBytes (unat (the w)) c1 = (s, c2)" by fastforce
  have c2: "unread c2 \<le> m" using unread_ReadBytes [OF c1, of "unat (the w)"] s by simp
  have "unread (snd (ReadBytes (padding (unat (the w))) c2)) \<le> m" by (rule unread_ReadBytes [OF c2])
  then show ?thesis using w s c1 c2 by (auto simp: ReadString_def split: option.splits prod.splits)
qed

lemma unread_SkipFields_loop: "unread c \<le> m \<Longrightarrow> unread (SkipFields_loop n c) \<le> m"
proof (induction n arbitrary: c)
  case (Suc n)
  let ?c = "snd (ReadWord c)"
  have "unread (if word_or_0 (fst (ReadWord c)) = 1 then snd (ReadString ?c) else snd (ReadWord ?c)) \<le> m"
    using Suc.prems by (auto intro: unread_intros)
  from Suc.IH [OF this] show ?case by (simp add: case_prod_beta)
qed simp

lemma unread_SkipFields [unread_intros]: "unread c \<le> m \<Longrightarrow> unread (SkipFields c) \<le> m"
  unfolding SkipFields_def case_prod_beta by (intro unread_SkipFields_loop unread_intros)

lemma unread_log [simp]: "unread (log_line s c) = unread c"
  by (simp add: unread_def log_line_def)

lemma drain_message_le: "unread (snd (drain_message msg c)) \<le> unread c"
proof -
  have split: "(b \<Longrightarrow> P x) \<Longrightarrow> (\<not> b \<Longrightarrow> P y) \<Longrightarrow> P (if b then x else y)" for b x y and P :: "bool option \<times> nix_conn \<Rightarrow> bool"
    by simp
  show ?thesis
    unfolding drain_message_def case_prod_beta
    by (intro split [where P = "\<lambda>z. unread (snd z) \<le> unread c"])
      (simp_all only: snd_conv unread_log order_refl, (intro unread_intros order_refl)+)
qed

section \<open>The operations of the daemon\<close>

function DrainStderr :: "nix_conn \<Rightarrow> bool \<times> nix_conn" where
  "DrainStderr c =
     (case ReadWord c of
        (None, c) \<Rightarrow> (False, c)
      | (Some msg, c) \<Rightarrow>
          (case drain_message msg c of
             (Some answer, c) \<Rightarrow> (answer, c)
           | (None, c) \<Rightarrow> DrainStderr c))"
  by pat_completeness auto

termination DrainStderr
proof (relation "measure unread", goal_cases)
  case (2 c x1 x2 msg y1 y2)
  then have "ReadWord c = (Some msg, x2)" "drain_message msg x2 = (None, y2)" by simp_all
  then show ?case
    using ReadWord_unread [of c "Some msg" x2] drain_message_le [of msg x2] by simp
qed simp

declare DrainStderr.simps [simp del]

definition kFeatures :: "string list" where
  "kFeatures = [''realisation-with-path-not-hash'', ''disable-set-options'', ''add-to-store-scanning'', ''submit-output'']"

definition read_ok :: "(nix_conn \<Rightarrow> 'a option \<times> nix_conn) \<Rightarrow> bool \<times> nix_conn \<Rightarrow> bool \<times> nix_conn" where
  "read_ok rd = (\<lambda>(ok, c). if ok then (case rd c of (r, c) \<Rightarrow> (r \<noteq> None, c)) else (False, c))"

definition then_ok :: "(nix_conn \<Rightarrow> bool \<times> nix_conn) \<Rightarrow> bool \<times> nix_conn \<Rightarrow> bool \<times> nix_conn" where
  "then_ok step = (\<lambda>(ok, c). if ok then step c else (False, c))"

definition handshake_version :: "nix_conn \<Rightarrow> bool \<times> nix_conn" where
  "handshake_version c =
     (case Flush (WriteWord kProtocolVersion (WriteWord kWorkerMagic1 c)) of (flushed, c) \<Rightarrow>
        case (if flushed then ReadWord c else (None, c)) of (magic, c) \<Rightarrow>
          if magic \<noteq> Some kWorkerMagic2 then (False, log_line ''jig nix-store: bad daemon magic'' c)
          else case ReadWord c of (version, c) \<Rightarrow>
            (case version of
               Some v \<Rightarrow>
                 if min v kProtocolVersion < kProtocolVersion
                 then (False, log_line (''jig nix-store: daemon protocol '' @ to_string (unat v) @ '' too old'') c)
                 else (True, c)
             | None \<Rightarrow> (False, log_line ''jig nix-store: daemon protocol 0 too old'' c)))"

definition handshake_features :: "nix_conn \<Rightarrow> bool \<times> nix_conn" where
  "handshake_features c =
     (let c = foldl (\<lambda>c feature. WriteString feature c) (WriteWord (word_of_nat (length kFeatures)) c) kFeatures in
      then_ok SkipStrings (Flush c))"

definition Handshake :: "nix_conn \<Rightarrow> bool \<times> nix_conn" where
  "Handshake c =
     then_ok DrainStderr (read_ok ReadWord (read_ok ReadString (then_ok (\<lambda>c. Flush (WriteWord 0 (WriteWord 0 c)))
       (then_ok handshake_features (handshake_version c)))))"

definition Connect_daemon :: "env \<Rightarrow> (string \<Rightarrow> nix_conn option) \<Rightarrow> nix_conn \<Rightarrow> bool \<times> nix_conn" where
  "Connect_daemon env connect c =
     (let remote = Env env ''NIX_REMOTE'' [] in
      if \<not> starts_with remote ''unix://''
      then (False, log_line (''jig nix-store: NIX_REMOTE='' @ remote @ '' is not a unix:// socket (builder-rpc-v0 missing?)'') c)
      else let remote = drop 7 remote in
        if length remote \<ge> 108 then (False, c)
        else case connect remote of
          None \<Rightarrow> (False, log_line (''jig nix-store: cannot connect to '' @ remote) c)
        | Some sock \<Rightarrow> Handshake (c\<lparr>nc_chunks := nc_chunks sock, nc_accepts := nc_accepts sock, nc_sent := []\<rparr>))"

definition add_request :: "string \<Rightarrow> string \<Rightarrow> string list \<Rightarrow> string \<Rightarrow> nix_conn \<Rightarrow> nix_conn" where
  "add_request name ca_method references contents c =
     (let refs = sort references;
          c = WriteString ca_method (WriteString name (WriteWord kOpAddToStore c));
          c = foldl (\<lambda>c ref. WriteString ref c) (WriteWord (word_of_nat (length refs)) c) refs;
          c = WriteWord (word_of_nat (length contents)) (WriteWord 0 c)
      in WriteWord 0 (c\<lparr>nc_out := nc_out c @ contents\<rparr>))"

definition AddToStore :: "string \<Rightarrow> string \<Rightarrow> string list \<Rightarrow> string \<Rightarrow> nix_conn \<Rightarrow> string option \<times> nix_conn" where
  "AddToStore name ca_method references contents c =
     (case then_ok DrainStderr (Flush (add_request name ca_method references contents c)) of
        (False, c) \<Rightarrow> (None, c)
      | (True, c) \<Rightarrow>
          (case ReadString c of
             (None, c) \<Rightarrow> (None, c)
           | (Some path, c) \<Rightarrow>
               (case read_ok ReadString (then_ok SkipStrings (read_ok ReadWord (read_ok ReadWord (read_ok ReadWord
                  (then_ok SkipStrings (read_ok ReadString (read_ok ReadString (True, c)))))))) of
                  (ok, c) \<Rightarrow> (if ok then Some path else None, c))))"

definition SubmitOutput :: "string \<Rightarrow> string \<Rightarrow> nix_conn \<Rightarrow> bool \<times> nix_conn" where
  "SubmitOutput path output c =
     read_ok ReadWord (then_ok DrainStderr
       (Flush (WriteString output (WriteString path (WriteWord 0 (WriteWord kOpSubmitOutput c))))))"

section \<open>The mode\<close>

definition TextPath :: "string \<Rightarrow> string \<Rightarrow> string list \<Rightarrow> string \<Rightarrow> string" where
  "TextPath store_dir name references contents =
     MakeStorePath store_dir (foldl (\<lambda>type ref. type @ '':'' @ ref) ''text'' (sort references)) contents name"

record nix_target =
  nt_offline :: bool
  nt_conn :: nix_conn

definition nix_Open :: "env \<Rightarrow> (string \<Rightarrow> nix_conn option) \<Rightarrow> nix_conn \<Rightarrow> bool \<times> nix_target" where
  "nix_Open env connect c =
     (if Env env ''JIG_NIX_STORE_OFFLINE'' [] \<noteq> [] then (True, \<lparr>nt_offline = True, nt_conn = c\<rparr>)
      else case Connect_daemon env connect c of (ok, c) \<Rightarrow> (ok, \<lparr>nt_offline = False, nt_conn = c\<rparr>))"

definition AddText :: "string \<Rightarrow> string \<Rightarrow> string list \<Rightarrow> string \<Rightarrow> nix_target \<Rightarrow> string option \<times> nix_target" where
  "AddText store_dir name references contents t =
     (if nt_offline t then (Some (TextPath store_dir name references contents), t)
      else case AddToStore name ''text:sha256'' references contents (nt_conn t) of
        (path, c) \<Rightarrow> (path, t\<lparr>nt_conn := c\<rparr>))"

definition Submit :: "string \<Rightarrow> string \<Rightarrow> nix_target \<Rightarrow> bool \<times> nix_target" where
  "Submit drv output t =
     (if nt_offline t then (True, t)
      else case SubmitOutput drv output (nt_conn t) of (ok, c) \<Rightarrow> (ok, t\<lparr>nt_conn := c\<rparr>))"

text \<open>What the mode is given: the directory the program was built for, the JSON library (the parser, and
  the parser after the printer), and its standard input.\<close>

record nix_setup =
  ns_dir :: string
  ns_parse :: "string \<Rightarrow> json option"
  ns_dump :: "json \<Rightarrow> string"
  ns_stdin :: string

text \<open>The exit status and the standard output; \<open>None\<close> where the JSON library aborts the process.\<close>

type_synonym nix_result = "(int \<times> string) option \<times> nix_target"

definition run_add :: "nix_setup \<Rightarrow> string \<Rightarrow> string list \<Rightarrow> string \<Rightarrow> nix_target \<Rightarrow> nix_result" where
  "run_add ns name refs contents t =
     (case AddText (ns_dir ns) name refs contents t of
        (None, t) \<Rightarrow> (Some (1, []), t)
      | (Some path, t) \<Rightarrow> (Some (0, path @ [CHR 0x0A]), t))"

fun run_fetchurls :: "nix_setup \<Rightarrow> json list \<Rightarrow> json list \<Rightarrow> nix_target \<Rightarrow> nix_result" where
  "run_fetchurls ns [] result t = (Some (0, ns_dump ns (JArray result) @ [CHR 0x0A]), t)"
| "run_fetchurls ns (file # files) result t =
     (case (value_string file ''name'', value_string file ''algo'', value_string file ''hex'') of
        (Some name, Some algo, Some hex) \<Rightarrow>
          (let out = FixedOutputPath (ns_dir ns) name algo hex in
           case FetchurlDerivation (\<lambda>j. ns_parse ns (ns_dump ns j)) file out of
             None \<Rightarrow> (None, t)
           | Some contents \<Rightarrow>
               (case AddText (ns_dir ns) (name @ ''.drv'') [] contents t of
                  (None, t) \<Rightarrow> (Some (1, []), t)
                | (Some drv, t) \<Rightarrow>
                    run_fetchurls ns files (result @ [JObject [(''drv'', JString drv), (''out'', JString out)]]) t))
      | _ \<Rightarrow> (None, t))"

definition nix_log :: "string \<Rightarrow> nix_target \<Rightarrow> nix_target" where
  "nix_log s t = t\<lparr>nt_conn := log_line s (nt_conn t)\<rparr>"

definition run_verb :: "nix_setup \<Rightarrow> string \<Rightarrow> string list \<Rightarrow> nix_target \<Rightarrow> nix_result" where
  "run_verb ns verb rest t =
     (if (verb = ''add-text'' \<or> verb = ''add-drv'') \<and> rest \<noteq> [] then
        (if verb = ''add-text'' then run_add ns (hd rest) (tl rest) (ns_stdin ns) t
         else case DerivationToATerm (ns_parse ns (ns_stdin ns)) of
           None \<Rightarrow> (None, t)
         | Some contents \<Rightarrow>
             if contents = [] then (Some (1, []), nix_log ''jig nix-store: derivation JSON did not parse'' t)
             else run_add ns (hd rest) (tl rest) contents t)
      else if verb = ''fetchurls'' \<and> rest = [] then
        (case ns_parse ns (ns_stdin ns) of
           Some (JArray files) \<Rightarrow> run_fetchurls ns files [] t
         | _ \<Rightarrow> (Some (1, []), nix_log ''jig nix-store fetchurls: expected a JSON array'' t))
      else if verb = ''submit'' \<and> length rest = 2 then
        (case Submit (rest ! 0) (rest ! 1) t of (ok, t) \<Rightarrow> (Some (if ok then 0 else 1, []), t))
      else (Some (2, []), nix_log ''jig nix-store: bad arguments'' t))"

definition RunNixStoreMode ::
  "nix_setup \<Rightarrow> env \<Rightarrow> (string \<Rightarrow> nix_conn option) \<Rightarrow> nix_conn \<Rightarrow> string list \<Rightarrow> nix_result" where
  "RunNixStoreMode ns env connect c args =
     (case args of
        [] \<Rightarrow> (Some (2, []), \<lparr>nt_offline = False,
                 nt_conn = log_line (''usage: jig nix-store add-text|add-drv|fetchurls|submit '' @ [CHR 0xE2, CHR 0x80, CHR 0xA6]) c\<rparr>)
      | verb # rest \<Rightarrow>
          (case nix_Open env connect c of
             (False, t) \<Rightarrow> (Some (1, []), t)
           | (True, t) \<Rightarrow> run_verb ns verb rest t))"

end
