(* ===== verification/Nix_Codec.thy ===== *)
theory Nix_Codec
  imports Nix_Store "HOL-Library.Multiset"
begin

text \<open>
  The formats of the \<open>nix-store\<close> mode, read back.  A printer and a parser that inverts it in front of any
  continuation form a codec; lists and pairs of codecs are codecs, which gives the parser of derivations.
  The second half reads the worker protocol off the byte stream.
\<close>

section \<open>Codecs\<close>

locale codec =
  fixes print :: "'a \<Rightarrow> string"
    and parse :: "string \<Rightarrow> ('a \<times> string) option"
  assumes parse_print: "parse (print x @ rest) = Some (x, rest)"
    and print_start: "print x \<noteq> [] \<and> hd (print x) \<noteq> CHR '']''"
begin

lemma print_inj: "print x @ r = print y @ s \<Longrightarrow> x = y \<and> r = s"
  by (metis parse_print option.inject prod.inject)

lemma print_eq: "print x = print y \<longleftrightarrow> x = y"
  by (metis print_inj)

end

fun parse_char :: "char \<Rightarrow> string \<Rightarrow> string option" where
  "parse_char c [] = None"
| "parse_char c (x # xs) = (if x = c then Some xs else None)"

fun parse_more :: "nat \<Rightarrow> (string \<Rightarrow> ('a \<times> string) option) \<Rightarrow> string \<Rightarrow> ('a list \<times> string) option" where
  "parse_more 0 p s = None"
| "parse_more (Suc n) p [] = None"
| "parse_more (Suc n) p (c # cs) =
     (if c = CHR '']'' then Some ([], cs)
      else if c = CHR '','' then
        (case p cs of
           None \<Rightarrow> None
         | Some (x, r) \<Rightarrow> map_option (\<lambda>(xs, r). (x # xs, r)) (parse_more n p r))
      else None)"

definition parse_list :: "(string \<Rightarrow> ('a \<times> string) option) \<Rightarrow> string \<Rightarrow> ('a list \<times> string) option" where
  "parse_list p s = do {
     cs \<leftarrow> parse_char CHR ''['' s;
     (case parse_char CHR '']'' cs of
        Some r \<Rightarrow> Some ([], r)
      | None \<Rightarrow> do { (x, r) \<leftarrow> p cs; (xs, r) \<leftarrow> parse_more (length s) p r; Some (x # xs, r) })
   }"

definition pair_text :: "('a \<Rightarrow> string) \<Rightarrow> ('b \<Rightarrow> string) \<Rightarrow> 'a \<times> 'b \<Rightarrow> string" where
  "pair_text f g = (\<lambda>(a, b). ''('' @ f a @ '','' @ g b @ '')'')"

definition parse_pair ::
  "(string \<Rightarrow> ('a \<times> string) option) \<Rightarrow> (string \<Rightarrow> ('b \<times> string) option) \<Rightarrow> string \<Rightarrow> (('a \<times> 'b) \<times> string) option" where
  "parse_pair p q s = do {
     s \<leftarrow> parse_char CHR ''('' s; (a, s) \<leftarrow> p s; s \<leftarrow> parse_char CHR '','' s; (b, s) \<leftarrow> q s;
     s \<leftarrow> parse_char CHR '')'' s; Some ((a, b), s)
   }"

context codec
begin

lemma parse_more_items:
  "length xs < n \<Longrightarrow> parse_more n parse (list_items print False xs @ '']'' @ rest) = Some (xs, rest)"
proof (induction xs arbitrary: n)
  case Nil
  then show ?case by (cases n) simp_all
next
  case (Cons x xs)
  from Cons.prems obtain m where "n = Suc m" "length xs < m" by (cases n) simp_all
  then show ?case using Cons.IH [of m] by (simp add: parse_print)
qed

lemma list_items_length: "length xs \<le> length (list_items print first xs)"
proof (induction xs arbitrary: first)
  case (Cons x xs)
  have "Suc 0 \<le> length (print x)" using print_start [of x] by (cases "print x") simp_all
  with Cons [of False] show ?case by simp
qed simp

lemma list_codec: "codec (List print) (parse_list parse)"
proof
  fix xs rest
  show "parse_list parse (List print xs @ rest) = Some (xs, rest)"
  proof (cases xs)
    case Nil
    then show ?thesis by (simp add: parse_list_def List_def)
  next
    case (Cons y ys)
    have "length ys < length (List print xs @ rest)"
      using list_items_length [of xs True] by (simp add: Cons List_def)
    moreover have "parse_char CHR '']'' (print y @ s) = None" for s
      using print_start [of y] by (cases "print y") auto
    ultimately show ?thesis
      using parse_more_items [of ys "length (List print xs @ rest)" rest]
      by (simp add: parse_list_def Cons List_def parse_print)
  qed
qed (simp add: List_def)

end

lemma pair_codec:
  assumes "codec f p" "codec g q"
  shows "codec (pair_text f g) (parse_pair p q)"
proof
  fix x rest
  show "parse_pair p q (pair_text f g x @ rest) = Some (x, rest)"
    by (cases x) (simp add: parse_pair_def pair_text_def codec.parse_print [OF assms(1)] codec.parse_print [OF assms(2)])
qed (simp add: pair_text_def split: prod.split)

section \<open>Derivations\<close>

lemma bind_weak_cong: "m = m' \<Longrightarrow> Option.bind m f = Option.bind m' f"
  by simp

definition unescape :: "char \<Rightarrow> char" where
  "unescape c = (if c = CHR ''n'' then CHR 0x0A else if c = CHR ''r'' then CHR 0x0D
     else if c = CHR ''t'' then CHR 0x09 else c)"

fun unquote :: "string \<Rightarrow> string \<Rightarrow> (string \<times> string) option" where
  "unquote [] acc = None"
| "unquote (c # cs) acc =
     (if c = CHR 0x22 then Some (acc, cs)
      else if c = CHR 0x5C then (case cs of [] \<Rightarrow> None | d # ds \<Rightarrow> unquote ds (acc @ [unescape d]))
      else unquote cs (acc @ [c]))"

definition parse_quoted :: "string \<Rightarrow> (string \<times> string) option" where
  "parse_quoted s = do { cs \<leftarrow> parse_char CHR 0x22 s; unquote cs [] }"

lemma unquote_quoted:
  "unquote (concat (map quote_char s) @ CHR 0x22 # rest) acc = Some (acc @ s, rest)"
  by (induction s arbitrary: acc) (simp_all add: quote_char_def unescape_def)

interpretation quoted: codec Quote parse_quoted
  by unfold_locales (simp_all add: Quote_def parse_quoted_def unquote_quoted)

interpretation strings: codec "List Quote" "parse_list parse_quoted"
  by (rule quoted.list_codec)

interpretation env_pair: codec "pair_text Quote Quote" "parse_pair parse_quoted parse_quoted"
  by (rule pair_codec [OF quoted.codec_axioms quoted.codec_axioms])

interpretation input_pair: codec "pair_text Quote (List Quote)" "parse_pair parse_quoted (parse_list parse_quoted)"
  by (rule pair_codec [OF quoted.codec_axioms strings.codec_axioms])

definition parse_output :: "string \<Rightarrow> ((string \<times> string \<times> string \<times> string) \<times> string) option" where
  "parse_output s = do {
     s \<leftarrow> parse_char CHR ''('' s; (name, s) \<leftarrow> parse_quoted s; s \<leftarrow> parse_char CHR '','' s;
     (path, s) \<leftarrow> parse_quoted s; s \<leftarrow> parse_char CHR '','' s; (algo, s) \<leftarrow> parse_quoted s;
     s \<leftarrow> parse_char CHR '','' s; (hash, s) \<leftarrow> parse_quoted s; s \<leftarrow> parse_char CHR '')'' s;
     Some ((name, path, algo, hash), s)
   }"

interpretation output_tuple: codec output_text parse_output
proof
  fix x rest
  show "parse_output (output_text x @ rest) = Some (x, rest)"
    by (cases x rule: prod_cases4) (simp cong: bind_weak_cong add: parse_output_def quoted.parse_print)
  show "output_text x \<noteq> [] \<and> hd (output_text x) \<noteq> CHR '']''" by (cases x rule: prod_cases4) simp
qed

interpretation outputs: codec "List output_text" "parse_list parse_output"
  by (rule output_tuple.list_codec)

interpretation inputs: codec "List (pair_text Quote (List Quote))" "parse_list (parse_pair parse_quoted (parse_list parse_quoted))"
  by (rule input_pair.list_codec)

interpretation env_vars: codec "List (pair_text Quote Quote)" "parse_list (parse_pair parse_quoted parse_quoted)"
  by (rule env_pair.list_codec)

lemma tuple_texts: "input_text = pair_text Quote (List Quote)" "env_text = pair_text Quote Quote"
  by (simp_all add: fun_eq_iff pair_text_def)

definition parse_aterm :: "string \<Rightarrow> (derivation \<times> string) option" where
  "parse_aterm s = do {
     s \<leftarrow> (if starts_with s ''Derive('' then Some (drop 7 s) else None);
     (outs, s) \<leftarrow> parse_list parse_output s; s \<leftarrow> parse_char CHR '','' s;
     (inputs, s) \<leftarrow> parse_list (parse_pair parse_quoted (parse_list parse_quoted)) s; s \<leftarrow> parse_char CHR '','' s;
     (srcs, s) \<leftarrow> parse_list parse_quoted s; s \<leftarrow> parse_char CHR '','' s;
     (platform, s) \<leftarrow> parse_quoted s; s \<leftarrow> parse_char CHR '','' s;
     (builder, s) \<leftarrow> parse_quoted s; s \<leftarrow> parse_char CHR '','' s;
     (args, s) \<leftarrow> parse_list parse_quoted s; s \<leftarrow> parse_char CHR '','' s;
     (env, s) \<leftarrow> parse_list (parse_pair parse_quoted parse_quoted) s; s \<leftarrow> parse_char CHR '')'' s;
     Some (\<lparr>dv_outputs = outs, dv_input_drvs = inputs, dv_input_srcs = srcs, dv_system = platform,
            dv_builder = builder, dv_args = args, dv_env = env\<rparr>, s)
   }"

lemma parse_aterm_text: "parse_aterm (aterm_text d @ rest) = Some (d, rest)"
  by (simp cong: bind_weak_cong add: parse_aterm_def aterm_text_def tuple_texts outputs.parse_print inputs.parse_print strings.parse_print
      quoted.parse_print env_vars.parse_print)

text \<open>C18: the ATerm text of a derivation can be read back, whatever strings it holds: quoting, lists and
  tuples are unambiguous.  Two derivations with the same text, and hence the same store path, are equal.\<close>

theorem aterm_roundtrip:
  "parse_aterm (aterm_text d @ rest) = Some (d, rest) \<and> (aterm_text d = aterm_text d' \<longleftrightarrow> d = d')"
proof -
  have "d = d'" if "aterm_text d = aterm_text d'"
    using parse_aterm_text [of d "[]"] parse_aterm_text [of d' "[]"] that by simp
  then show ?thesis using parse_aterm_text by auto
qed

section \<open>The canonical order\<close>

lemma map_emplace_map_of: "sorted_wrt (<) (map fst m) \<Longrightarrow> map_of (map_emplace k v m) = [k \<mapsto> v] ++ map_of m"
proof (induction m)
  case (Cons e m)
  obtain k' v' where e: "e = (k', v')" by fastforce
  have "map_of m k = None" if "k < k'" using Cons.prems that by (fastforce simp: e map_of_eq_None_iff)
  then show ?case using Cons by (auto simp: e fun_eq_iff map_add_def split: option.split)
qed (simp add: fun_eq_iff)

lemma map_emplace_keys: "fst ` set (map_emplace k v m) = insert k (fst ` set m)"
  by (induction k v m rule: map_emplace.induct) auto

lemma map_emplace_sorted: "sorted_wrt (<) (map fst m) \<Longrightarrow> sorted_wrt (<) (map fst (map_emplace k v m))"
proof (induction m)
  case (Cons e m)
  obtain k' v' where e: "e = (k', v')" by fastforce
  have less: "\<forall>x \<in> fst ` set m. k' < x" using Cons.prems by (simp add: e)
  consider "k < k'" | "k = k'" | "k' < k" by (rule linorder_cases)
  then show ?case
  proof cases
    case 1
    then show ?thesis using Cons.prems less by (auto simp: e)
  next
    case 3
    have "\<forall>x \<in> fst ` set (map_emplace k v m). k' < x" using 3 less by (simp add: map_emplace_keys)
    then show ?thesis using 3 less_not_sym [OF 3] Cons by (simp add: e)
  qed (use Cons.prems in \<open>simp add: e\<close>)
qed simp

lemma to_map_from:
  "sorted_wrt (<) (map fst m) \<Longrightarrow>
   sorted_wrt (<) (map fst (foldl (\<lambda>m (k, v). map_emplace k v m) m items)) \<and>
   map_of (foldl (\<lambda>m (k, v). map_emplace k v m) m items) = map_of items ++ map_of m"
proof (induction items arbitrary: m)
  case (Cons e items)
  obtain k v where e: "e = (k, v)" by fastforce
  have "map_of (e # items) ++ map_of m = map_of items ++ map_of (map_emplace k v m)"
    unfolding map_emplace_map_of [OF Cons.prems] by (simp add: e map_add_assoc)
  then show ?case using Cons.IH [OF map_emplace_sorted [OF Cons.prems]] by (simp add: e del: fun_upd_apply)
qed simp

lemma to_map_sorted: "sorted_wrt (<) (map fst (to_map items))"
  and to_map_map_of: "map_of (to_map items) = map_of items"
  using to_map_from [of "[]" items] by (simp_all add: to_map_def)

lemma sorted_map_unique:
  fixes xs ys :: "(string \<times> 'a) list"
  assumes "sorted_wrt (<) (map fst xs)" "sorted_wrt (<) (map fst ys)" "map_of xs = map_of ys"
  shows "xs = ys"
proof -
  have list: "zs = map (\<lambda>k. (k, the (map_of zs k))) (map fst zs)" if "sorted_wrt (<) (map fst zs)" for zs :: "(string \<times> 'a) list"
  proof -
    have "distinct (map fst zs)" using that strict_sorted_iff by blast
    then have "map (\<lambda>kv. (fst kv, the (map_of zs (fst kv)))) zs = map id zs"
      by (intro map_cong refl) (auto simp: map_of_eq_Some_iff)
    then show ?thesis by (simp add: comp_def)
  qed
  have "fst ` set xs = fst ` set ys" using assms(3) by (metis dom_map_of_conv_image_fst)
  then have "map fst xs = map fst ys" using assms(1,2) by (intro strict_sorted_equal) simp_all
  then show ?thesis using list [OF assms(1)] list [OF assms(2)] assms(3) by simp
qed

text \<open>The text is canonical.  The maps the text lists are strictly sorted by key and hold exactly the
  members of the JSON object, so an object with its members in another order gives the same derivation.\<close>

theorem to_map_canonical:
  fixes items :: "(string \<times> 'a) list"
  assumes "distinct (map fst items)" "mset items' = mset items"
  shows "to_map items' = to_map items \<and> sorted_wrt (<) (map fst (to_map items)) \<and>
    map_of (to_map items) = map_of items"
proof -
  have "mset (map fst items') = mset (map fst items)" using assms(2) by simp
  then have "distinct (map fst items')"
    using assms(1) unfolding distinct_count_atmost_1 set_mset_mset [symmetric] by metis
  then have "map_of items' = map_of items"
    using assms(1) mset_eq_setD [OF assms(2)] by (simp add: map_of_inject_set)
  then show ?thesis
    using sorted_map_unique [OF to_map_sorted to_map_sorted, of items' items] by (simp add: to_map_map_of to_map_sorted)
qed

theorem to_map_canonical_witness:
  "to_map [(''out'', ''/o''), (''a'', ''1'')] = [(''a'', ''1''), (''out'', ''/o'')]"
proof -
  have "to_map [(''a'', ''1''), (''out'', ''/o'')] = [(''a'', ''1''), (''out'', ''/o'')]" by code_simp
  then show ?thesis
    using to_map_canonical [of "[(''a'', ''1''), (''out'', ''/o'')]" "[(''out'', ''/o''), (''a'', ''1'')]"] by simp
qed

end
