(* ===== verification/Nix_Wire.thy ===== *)
theory Nix_Wire
  imports Nix_Codec
begin

text \<open>
  The client of the Nix daemon follows the worker protocol.  The kernel may cut the stream of the daemon
  into chunks of any size; the first half shows that no operation can tell, so that the second half reads a
  stream that arrives in one piece.  There, the replies of a daemon that follows the protocol are read to
  their end, and the errors it reports are printed.
\<close>

section \<open>The stream behind the chunks\<close>

definition cstream :: "string list \<Rightarrow> string" where
  "cstream chunks = concat (takeWhile (\<lambda>x. x \<noteq> []) chunks)"

abbreviation stream :: "nix_conn \<Rightarrow> string" where
  "stream c \<equiv> cstream (nc_chunks c)"

lemma cstream_simps [simp]:
  "cstream [] = []" "cstream ([] # xs) = []" "x \<noteq> [] \<Longrightarrow> cstream (x # xs) = x @ cstream xs"
  by (simp_all add: cstream_def)

lemma conn_read_stream:
  assumes "n \<noteq> 0"
  shows "case conn_read n chunks of
      None \<Rightarrow> cstream chunks = []
    | Some (part, rest) \<Rightarrow> part \<noteq> [] \<and> length part \<le> n \<and> cstream chunks = part @ cstream rest"
proof (cases chunks)
  case (Cons x xs)
  show ?thesis
  proof (cases "x = []")
    case False
    have "take n x @ drop n x @ ys = x @ ys" for ys by (simp flip: append_assoc)
    then show ?thesis using False assms by (simp add: Cons conn_read_def)
  qed (simp add: Cons conn_read_def)
qed (simp add: conn_read_def)

lemma ReadBytes_loop_stream:
  "fst (ReadBytes_loop n chunks got) = (if n \<le> length (cstream chunks) then Some (got @ take n (cstream chunks)) else None) \<and>
   cstream (snd (ReadBytes_loop n chunks got)) = drop n (cstream chunks)"
proof (induction n chunks got rule: ReadBytes_loop.induct)
  case (1 n chunks got)
  show ?case
  proof (cases "n = 0")
    case True
    then show ?thesis by (simp add: ReadBytes_loop.simps [of 0])
  next
    case False
    show ?thesis
    proof (cases "conn_read n chunks")
      case None
      then show ?thesis using False conn_read_stream [OF False, of chunks] by (simp add: ReadBytes_loop.simps [of n chunks])
    next
      case (Some x)
      obtain part rest where x: "x = (part, rest)" by fastforce
      have "length part \<le> n" "cstream chunks = part @ cstream rest"
        using conn_read_stream [OF False, of chunks] by (simp_all add: Some x)
      then show ?thesis
        using "1.IH" [OF False Some x [symmetric]] False by (simp add: ReadBytes_loop.simps [of n chunks] Some x) auto
    qed
  qed
qed

section \<open>No operation sees the chunks\<close>

text \<open>Connections that differ in how their stream is cut, and operations that treat them alike.\<close>

definition alike :: "nix_conn \<Rightarrow> nix_conn \<Rightarrow> bool" where
  "alike c d \<longleftrightarrow> stream c = stream d \<and> nc_accepts c = nc_accepts d \<and> nc_out c = nc_out d \<and>
     nc_sent c = nc_sent d \<and> nc_log c = nc_log d"

definition uniform :: "(nix_conn \<Rightarrow> 'a \<times> nix_conn) \<Rightarrow> bool" where
  "uniform f \<longleftrightarrow> (\<forall>c d. alike c d \<longrightarrow> fst (f c) = fst (f d) \<and> alike (snd (f c)) (snd (f d)))"

definition moves :: "(nix_conn \<Rightarrow> nix_conn) \<Rightarrow> bool" where
  "moves f \<longleftrightarrow> (\<forall>c d. alike c d \<longrightarrow> alike (f c) (f d))"

named_theorems alike_intros \<open>operations that cannot tell how the stream is cut\<close>

lemma uniformD: "uniform f \<Longrightarrow> alike c d \<Longrightarrow> fst (f c) = fst (f d)" "uniform f \<Longrightarrow> alike c d \<Longrightarrow> alike (snd (f c)) (snd (f d))"
  by (simp_all add: uniform_def)

lemma movesD: "moves f \<Longrightarrow> alike c d \<Longrightarrow> alike (f c) (f d)"
  by (simp add: moves_def)

lemma uniform_pair [alike_intros]: "moves f \<Longrightarrow> uniform (\<lambda>c. (x, f c))"
  by (simp add: uniform_def moves_def)

lemma uniform_case [alike_intros]:
  "uniform f \<Longrightarrow> (\<And>x. uniform (g x)) \<Longrightarrow> uniform (\<lambda>c. case f c of (x, c') \<Rightarrow> g x c')"
  by (simp add: uniform_def case_prod_beta)

lemma uniform_if [alike_intros]: "uniform f \<Longrightarrow> uniform g \<Longrightarrow> uniform (\<lambda>c. if b then f c else g c)"
  by (cases b) simp_all

lemma uniform_option [alike_intros]:
  "uniform f \<Longrightarrow> (\<And>y. uniform (g y)) \<Longrightarrow> uniform (\<lambda>c. case x of None \<Rightarrow> f c | Some y \<Rightarrow> g y c)"
  by (cases x) simp_all

lemma uniform_bool [alike_intros]:
  "uniform f \<Longrightarrow> uniform g \<Longrightarrow> uniform (\<lambda>c. case b of True \<Rightarrow> f c | False \<Rightarrow> g c)"
  by (cases b) simp_all

lemma moves_id [alike_intros]: "moves (\<lambda>c. c)"
  by (simp add: moves_def)

lemma moves_snd [alike_intros]: "uniform f \<Longrightarrow> moves g \<Longrightarrow> moves (\<lambda>c. snd (f (g c)))"
  by (simp add: uniform_def moves_def)

lemma ReadBytes_alike [alike_intros]: "uniform (ReadBytes n)"
  unfolding uniform_def
proof (intro allI impI)
  fix c d
  assume cd: "alike c d"
  then have eq: "stream c = stream d" by (simp add: alike_def)
  have "fst (ReadBytes_loop n (nc_chunks c) []) = fst (ReadBytes_loop n (nc_chunks d) [])"
    "cstream (snd (ReadBytes_loop n (nc_chunks c) [])) = cstream (snd (ReadBytes_loop n (nc_chunks d) []))"
    using ReadBytes_loop_stream [of n "nc_chunks c" "[]"] ReadBytes_loop_stream [of n "nc_chunks d" "[]"] eq by simp_all
  then show "fst (ReadBytes n c) = fst (ReadBytes n d) \<and> alike (snd (ReadBytes n c)) (snd (ReadBytes n d))"
    using cd by (simp add: ReadBytes_def case_prod_beta alike_def)
qed

lemma uniform_map_option [alike_intros]: "uniform f \<Longrightarrow> uniform (\<lambda>c. case f c of (r, c') \<Rightarrow> (map_option h r, c'))"
  by (intro alike_intros)

lemma alike_log: "alike c d \<Longrightarrow> alike (log_line s c) (log_line s d)"
  by (simp add: alike_def log_line_def)

lemma log_line_alike [alike_intros]: "moves f \<Longrightarrow> moves (\<lambda>c. log_line s (f c))"
  using alike_log by (auto simp: moves_def)

lemma ReadWord_alike [alike_intros]: "uniform ReadWord"
  unfolding ReadWord_def by (intro alike_intros)

lemma ReadString_alike [alike_intros]: "uniform ReadString"
  unfolding ReadString_def by (intro alike_intros)

lemma SkipStrings_loop_alike [alike_intros]: "uniform (SkipStrings_loop n)"
  by (induction n) (simp_all add: SkipStrings_loop.simps [abs_def], (intro alike_intros | assumption)+)

lemma SkipStrings_alike [alike_intros]: "uniform SkipStrings"
  unfolding SkipStrings_def by (intro alike_intros)

lemma SkipFields_loop_alike: "moves (SkipFields_loop n)"
proof (induction n)
  case 0
  show ?case by (simp add: SkipFields_loop.simps(1) [abs_def] alike_intros)
next
  case (Suc n)
  show ?case
    unfolding moves_def
  proof (intro allI impI)
    fix c d
    assume "alike c d"
    from uniformD [OF ReadWord_alike this]
    have w: "fst (ReadWord c) = fst (ReadWord d)" and cd: "alike (snd (ReadWord c)) (snd (ReadWord d))" .
    show "alike (SkipFields_loop (Suc n) c) (SkipFields_loop (Suc n) d)"
      using movesD [OF Suc uniformD(2) [OF ReadString_alike cd]] movesD [OF Suc uniformD(2) [OF ReadWord_alike cd]]
      by (simp add: case_prod_beta w)
  qed
qed

lemma SkipFields_alike [alike_intros]:
  assumes "moves f" shows "moves (\<lambda>c. SkipFields (f c))"
  unfolding moves_def
proof (intro allI impI)
  fix c d
  assume "alike c d"
  then have cd: "alike (f c) (f d)" by (rule movesD [OF assms])
  show "alike (SkipFields (f c)) (SkipFields (f d))"
    using movesD [OF SkipFields_loop_alike uniformD(2) [OF ReadWord_alike cd]] uniformD(1) [OF ReadWord_alike cd]
    by (simp add: SkipFields_def case_prod_beta)
qed

lemma ReadString_after [alike_intros]: "moves f \<Longrightarrow> uniform (\<lambda>c. ReadString (f c))"
  using ReadString_alike by (simp add: uniform_def moves_def)

lemma drain_message_alike [alike_intros]: "uniform (drain_message msg)"
  unfolding drain_message_def by (intro alike_intros)

lemma DrainStderr_alike [alike_intros]: "uniform DrainStderr"
  unfolding uniform_def
proof (intro allI impI)
  fix c d
  assume "alike c d"
  then show "fst (DrainStderr c) = fst (DrainStderr d) \<and> alike (snd (DrainStderr c)) (snd (DrainStderr d))"
  proof (induction c arbitrary: d rule: DrainStderr.induct)
    case (1 c)
    obtain w c1 where c1: "ReadWord c = (w, c1)" by fastforce
    obtain d1 where d1: "ReadWord d = (w, d1)" "alike c1 d1"
      using uniformD [OF ReadWord_alike "1.prems"] c1 by (cases "ReadWord d") simp
    show ?case
    proof (cases w)
      case None
      then show ?thesis using c1 d1 by (simp add: DrainStderr.simps [of c] DrainStderr.simps [of d])
    next
      case (Some msg)
      obtain a c2 where c2: "drain_message msg c1 = (a, c2)" by fastforce
      obtain d2 where d2: "drain_message msg d1 = (a, d2)" "alike c2 d2"
        using uniformD [OF drain_message_alike d1(2), of msg] c2 by (cases "drain_message msg d1") simp
      show ?thesis
        using "1.IH" [OF c1 [symmetric] Some c2 [symmetric]] d2(2)
        by (cases a) (simp_all add: DrainStderr.simps [of c] DrainStderr.simps [of d] c1 d1 c2 d2 Some)
    qed
  qed
qed

section \<open>Requests\<close>

definition string_bytes :: "string \<Rightarrow> string" where
  "string_bytes s = word_bytes (word_of_nat (length s)) @ s @ replicate (padding (length s)) CHR 0x00"

definition strings_bytes :: "string list \<Rightarrow> string" where
  "strings_bytes ss = word_bytes (word_of_nat (length ss)) @ concat (map string_bytes ss)"

definition emit :: "string \<Rightarrow> nix_conn \<Rightarrow> nix_conn" where
  "emit s c = c\<lparr>nc_out := nc_out c @ s\<rparr>"

lemma emit_emit [simp]: "emit t (emit s c) = emit (s @ t) c"
  by (simp add: emit_def)

lemma WriteWord_emit: "WriteWord v c = emit (word_bytes v) c"
  by (simp add: WriteWord_def emit_def)

lemma WriteString_emit: "WriteString s c = emit (string_bytes s) c"
  by (simp add: WriteString_def WriteWord_def emit_def string_bytes_def)

lemma WriteStrings_emit: "foldl (\<lambda>c s. emit (string_bytes s) c) c ss = emit (concat (map string_bytes ss)) c"
  by (induction ss arbitrary: c) (simp_all, simp add: emit_def)

lemmas emits = WriteWord_emit WriteString_emit WriteStrings_emit

text \<open>The request, as the protocol describes it: operation, name, method, references, repair flag, and the
  contents as one frame with its terminator.\<close>

definition add_bytes :: "string \<Rightarrow> string \<Rightarrow> string list \<Rightarrow> string \<Rightarrow> string" where
  "add_bytes name ca_method references contents =
     word_bytes 7 @ string_bytes name @ string_bytes ca_method @ strings_bytes (sort references) @ word_bytes 0 @
     word_bytes (word_of_nat (length contents)) @ contents @ word_bytes 0"

lemma add_request_emit: "add_request n m r x c = emit (add_bytes n m r x) c"
proof -
  have "c'\<lparr>nc_out := nc_out c' @ x\<rparr> = emit x c'" for c' by (simp add: emit_def)
  then show ?thesis
    by (simp add: add_request_def add_bytes_def strings_bytes_def emits kOpAddToStore_def Let_def)
qed

lemma alike_emit: "alike c d \<Longrightarrow> alike (emit s c) (emit s d)"
  by (simp add: alike_def emit_def)

lemma Flush_alike: "alike c d \<Longrightarrow> fst (Flush c) = fst (Flush d) \<and> alike (snd (Flush c)) (snd (Flush d))"
  by (simp add: alike_def Flush_def split: prod.split bool.split)

lemma Flush_emit_alike [alike_intros]: "uniform (\<lambda>c. Flush (emit s c))"
  unfolding uniform_def using Flush_alike [OF alike_emit] by blast

lemma then_ok_alike [alike_intros]: "uniform step \<Longrightarrow> uniform f \<Longrightarrow> uniform (\<lambda>c. then_ok step (f c))"
  unfolding then_ok_def by (intro alike_intros)

lemma read_ok_alike [alike_intros]: "uniform rd \<Longrightarrow> uniform f \<Longrightarrow> uniform (\<lambda>c. read_ok rd (f c))"
  unfolding read_ok_def by (intro alike_intros)

lemma Handshake_alike: "uniform Handshake"
  unfolding Handshake_def handshake_version_def handshake_features_def emits emit_emit Let_def
  by (intro alike_intros)

lemma AddToStore_alike: "uniform (AddToStore n m r x)"
  unfolding AddToStore_def add_request_emit by (intro alike_intros)

lemma SubmitOutput_alike: "uniform (SubmitOutput p out)"
  unfolding SubmitOutput_def emits emit_emit by (intro alike_intros)

text \<open>C8: however the kernel cuts the stream of the daemon into reads, the handshake and the two operations
  of the client give the same result, print the same messages, send the same bytes and leave the same part
  of the stream unread.\<close>

theorem chunks_do_not_matter:
  assumes "alike c d"
  shows "rel_prod (=) alike (Handshake c) (Handshake d) \<and>
    rel_prod (=) alike (AddToStore name ca_method refs contents c) (AddToStore name ca_method refs contents d) \<and>
    rel_prod (=) alike (SubmitOutput path output c) (SubmitOutput path output d)"
  using uniformD [OF Handshake_alike assms] uniformD [OF AddToStore_alike assms] uniformD [OF SubmitOutput_alike assms]
  by (simp add: rel_prod_sel)

definition demo_conn :: "string list \<Rightarrow> nix_conn" where
  "demo_conn chunks = \<lparr>nc_chunks = chunks, nc_accepts = [100, 200], nc_out = [], nc_sent = [], nc_log = []\<rparr>"

theorem chunks_do_not_matter_witness:
  "rel_prod (=) alike (Handshake (demo_conn [''oixd'', ''abcdefg'', ''h''])) (Handshake (demo_conn [''oi'', ''xdabcdefgh'']))"
  using chunks_do_not_matter [of "demo_conn [''oixd'', ''abcdefg'', ''h'']" "demo_conn [''oi'', ''xdabcdefgh'']"]
  by (simp add: alike_def demo_conn_def)

section \<open>A stream in one piece\<close>

text \<open>The connection \<open>c\<close> with the unread stream \<open>s\<close>.\<close>

definition at :: "string \<Rightarrow> nix_conn \<Rightarrow> nix_conn" where
  "at s c = c\<lparr>nc_chunks := if s = [] then [] else [s]\<rparr>"

lemma alike_at: "alike c (at (stream c) c)"
  by (simp add: alike_def at_def)

lemma at_simps [simp]:
  "stream (at s c) = s" "nc_log (at s c) = nc_log c" "nc_out (at s c) = nc_out c"
  "nc_sent (at s c) = nc_sent c" "nc_accepts (at s c) = nc_accepts c"
  by (simp_all add: at_def)

lemma log_at [simp]: "log_line l (at s c) = at s (log_line l c)"
  by (simp add: at_def log_line_def)

lemma emit_at: "emit t (at s c) = at s (emit t c)"
  by (simp add: at_def emit_def)

lemma ReadBytes_at: "length s = n \<Longrightarrow> ReadBytes n (at (s @ rest) c) = (Some s, at rest c)"
proof (cases "n = 0")
  case False
  assume n: "length s = n"
  then have "conn_read n [s @ rest] = Some (s, if rest = [] then [] else [rest])" "s \<noteq> []"
    using False by (auto simp: conn_read_def)
  then show ?thesis
    using n False by (simp add: ReadBytes_def at_def ReadBytes_loop.simps [of n "[s @ rest]"] ReadBytes_loop.simps [of 0])
qed (simp add: ReadBytes_def at_def ReadBytes_loop.simps [of 0])

lemma byte_of_word: "word_of_nat (of_char (word_byte v i)) = (take_bit 8 (drop_bit (i * 8) v) :: 64 word)"
proof -
  have mask: "drop_bit (i * 8) v AND 0xff = take_bit 8 (drop_bit (i * 8) v)"
    by (simp add: take_bit_eq_mask mask_numeral)
  have "unat (take_bit 8 (drop_bit (i * 8) v)) < 256"
    using take_bit_nat_less_exp [of 8 "unat (drop_bit (i * 8) v)"] by (simp add: unsigned_take_bit_eq)
  then show ?thesis by (simp add: word_byte_def mask of_char_of)
qed

lemma or_bytes:
  fixes v :: "64 word"
  shows "foldl (\<lambda>u i. u OR push_bit (i * 8) (take_bit 8 (drop_bit (i * 8) v))) 0 [0..<k] = take_bit (k * 8) v"
proof (induction k)
  case (Suc k)
  have "take_bit (k * 8) v OR push_bit (k * 8) (take_bit 8 (drop_bit (k * 8) v)) = take_bit (Suc k * 8) v"
    by (rule bit_word_eqI) (auto simp: bit_simps)
  then show ?case by (simp add: Suc)
qed simp

lemma bytes_word_bytes [simp]: "bytes_word (word_bytes v) = v"
proof -
  have "bytes_word (word_bytes v) = foldl (\<lambda>u i. u OR push_bit (i * 8) (take_bit 8 (drop_bit (i * 8) v))) 0 [0..<8]"
    unfolding bytes_word_def kWordBytes_def
    by (rule foldl_cong) (simp_all add: word_bytes_def kWordBytes_def byte_of_word)
  also have "\<dots> = v" by (simp only: or_bytes) (simp add: take_bit_word_eq_self)
  finally show ?thesis .
qed

lemma length_word_bytes [simp]: "length (word_bytes v) = 8"
  by (simp add: word_bytes_def kWordBytes_def)

lemma ReadWord_at [simp]: "ReadWord (at (word_bytes v @ rest) c) = (Some v, at rest c)"
  by (simp add: ReadWord_def kWordBytes_def ReadBytes_at)

definition short :: "string \<Rightarrow> bool" where
  "short s \<longleftrightarrow> length s \<le> 64 * 2 ^ 20"

lemma ReadString_at [simp]:
  assumes "short s"
  shows "ReadString (at (string_bytes s @ rest) c) = (Some s, at rest c)"
proof -
  have max: "unat kMaxString = 64 * 2 ^ 20" by (simp add: kMaxString_def)
  have len: "unat (word_of_nat (length s) :: 64 word) = length s"
    using assms by (simp add: short_def unat_of_nat)
  then have "\<not> word_of_nat (length s) > kMaxString"
    using assms max by (simp add: short_def word_less_nat_alt)
  then show ?thesis
    using ReadBytes_at [of s "length s" "replicate (padding (length s)) CHR 0x00 @ rest" c]
      ReadBytes_at [of "replicate (padding (length s)) CHR 0x00" "padding (length s)" rest c]
    by (simp add: ReadString_def string_bytes_def len)
qed

lemma SkipStrings_loop_at:
  "list_all short ss \<Longrightarrow> SkipStrings_loop (length ss) (at (concat (map string_bytes ss) @ rest) c) = (True, at rest c)"
  by (induction ss) simp_all

lemma SkipStrings_at [simp]:
  "list_all short ss \<Longrightarrow> length ss < 2 ^ 64 \<Longrightarrow> SkipStrings (at (strings_bytes ss @ rest) c) = (True, at rest c)"
  by (simp add: SkipStrings_def strings_bytes_def SkipStrings_loop_at unat_of_nat)

section \<open>Log traffic\<close>

text \<open>What a daemon sends while it works: lines to print, and activities of a progress display, which
  carry numbers and strings.\<close>

datatype log_field = FInt "64 word" | FString string

fun field_bytes :: "log_field \<Rightarrow> string" where
  "field_bytes (FInt v) = word_bytes 0 @ word_bytes v"
| "field_bytes (FString s) = word_bytes 1 @ string_bytes s"

fun field_ok :: "log_field \<Rightarrow> bool" where
  "field_ok (FInt v) \<longleftrightarrow> True"
| "field_ok (FString s) \<longleftrightarrow> short s"

definition fields_bytes :: "log_field list \<Rightarrow> string" where
  "fields_bytes fs = word_bytes (word_of_nat (length fs)) @ concat (map field_bytes fs)"

definition fields_ok :: "log_field list \<Rightarrow> bool" where
  "fields_ok fs \<longleftrightarrow> list_all field_ok fs \<and> length fs < 2 ^ 64"

datatype message =
  Next string
| StartActivity "64 word" "64 word" "64 word" string "log_field list" "64 word"
| StopActivity "64 word"
| Result "64 word" "64 word" "log_field list"

fun message_bytes :: "message \<Rightarrow> string" where
  "message_bytes (Next s) = word_bytes kStderrNext @ string_bytes s"
| "message_bytes (StartActivity act level type s fs parent) =
     word_bytes kStderrStartActivity @ word_bytes act @ word_bytes level @ word_bytes type @ string_bytes s @
     fields_bytes fs @ word_bytes parent"
| "message_bytes (StopActivity act) = word_bytes kStderrStopActivity @ word_bytes act"
| "message_bytes (Result act type fs) = word_bytes kStderrResult @ word_bytes act @ word_bytes type @ fields_bytes fs"

fun message_ok :: "message \<Rightarrow> bool" where
  "message_ok (Next s) \<longleftrightarrow> short s"
| "message_ok (StartActivity act level type s fs parent) \<longleftrightarrow> short s \<and> fields_ok fs"
| "message_ok (StopActivity act) \<longleftrightarrow> True"
| "message_ok (Result act type fs) \<longleftrightarrow> fields_ok fs"

fun printed :: "message \<Rightarrow> string" where
  "printed (Next s) = s @ [CHR 0x0A]"
| "printed _ = []"

definition prints :: "string \<Rightarrow> nix_conn \<Rightarrow> nix_conn" where
  "prints l c = c\<lparr>nc_log := nc_log c @ l\<rparr>"

lemma prints_simps [simp]: "prints [] c = c" "prints m (prints l c) = prints (l @ m) c"
  by (simp_all add: prints_def)

lemma prints_at [simp]: "prints l (at s c) = at s (prints l c)"
  by (simp add: prints_def at_def)

lemma log_prints: "log_line s c = prints (s @ [CHR 0x0A]) c"
  by (simp add: prints_def log_line_def)

lemma SkipFields_loop_at:
  "list_all field_ok fs \<Longrightarrow> SkipFields_loop (length fs) (at (concat (map field_bytes fs) @ rest) c) = at rest c"
proof (induction fs)
  case (Cons f fs)
  then show ?case by (cases f) (simp_all add: word_or_0_def)
qed simp

lemma SkipFields_at [simp]: "fields_ok fs \<Longrightarrow> SkipFields (at (fields_bytes fs @ rest) c) = at rest c"
  by (simp add: SkipFields_def fields_bytes_def fields_ok_def word_or_0_def SkipFields_loop_at unat_of_nat)

lemma DrainStderr_message:
  assumes "message_ok m"
  shows "DrainStderr (at (message_bytes m @ rest) c) = DrainStderr (at rest (prints (printed m) c))"
  using assms
  by (cases m) (simp_all add: DrainStderr.simps [of "at (_ @ _) _"] drain_message_def message_defs log_prints)

lemma DrainStderr_messages:
  "list_all message_ok ms \<Longrightarrow>
   DrainStderr (at (concat (map message_bytes ms) @ rest) c) = DrainStderr (at rest (prints (concat (map printed ms)) c))"
  by (induction ms arbitrary: c) (simp_all add: DrainStderr_message)

lemma DrainStderr_last: "DrainStderr (at (word_bytes kStderrLast @ rest) c) = (True, at rest c)"
  by (simp add: DrainStderr.simps [of "at (_ @ _) _"] drain_message_def)

section \<open>A conversation\<close>

text \<open>The kernel takes the whole request, in pieces of any size.\<close>

definition writable :: "nat \<Rightarrow> nix_conn \<Rightarrow> bool" where
  "writable n c \<longleftrightarrow> list_all (\<lambda>a. a \<noteq> 0) (nc_accepts c) \<and> n \<le> sum_list (nc_accepts c)"

lemma Flush_loop_all:
  "list_all (\<lambda>a. a \<noteq> 0) accepts \<Longrightarrow> length out \<le> sum_list accepts \<Longrightarrow>
   \<exists>accepts'. Flush_loop out accepts sent = (True, accepts', sent @ out)"
proof (induction out accepts sent rule: Flush_loop.induct)
  case (3 b bs a accepts sent)
  then have "a \<noteq> 0" "length (drop a (b # bs)) \<le> sum_list accepts" by auto
  with 3 have "\<exists>accepts'. Flush_loop (drop a (b # bs)) accepts (sent @ take a (b # bs)) =
    (True, accepts', (sent @ take a (b # bs)) @ drop a (b # bs))" by auto
  then show ?case using \<open>a \<noteq> 0\<close> by simp
qed auto

text \<open>The connection after the request, with \<open>t\<close> unread.\<close>

definition asked :: "string \<Rightarrow> nat list \<Rightarrow> nix_conn \<Rightarrow> nix_conn" where
  "asked s accepts c = c\<lparr>nc_accepts := accepts, nc_sent := nc_sent c @ s\<rparr>"

lemma asked_simps [simp]: "nc_sent (asked s accepts c) = nc_sent c @ s" "nc_log (asked s accepts c) = nc_log c"
  by (simp_all add: asked_def)

lemma Flush_at:
  assumes "nc_out c = []" "writable (length s) c"
  obtains accepts where "Flush (emit s (at t c)) = (True, at t (asked s accepts c))"
proof -
  obtain accepts where "Flush_loop s (nc_accepts c) (nc_sent c) = (True, accepts, nc_sent c @ s)"
    using Flush_loop_all [of "nc_accepts c" s "nc_sent c"] assms(2) by (auto simp: writable_def)
  then have "Flush (emit s (at t c)) = (True, at t (asked s accepts c))"
    using assms(1) by (simp add: Flush_def emit_def at_def asked_def)
  then show thesis by (rule that)
qed

record path_info =
  pi_path :: string
  pi_deriver :: string
  pi_hash :: string
  pi_refs :: "string list"
  pi_time :: "64 word"
  pi_size :: "64 word"
  pi_ultimate :: "64 word"
  pi_sigs :: "string list"
  pi_ca :: string

definition info_bytes :: "path_info \<Rightarrow> string" where
  "info_bytes i =
     string_bytes (pi_path i) @ string_bytes (pi_deriver i) @ string_bytes (pi_hash i) @ strings_bytes (pi_refs i) @
     word_bytes (pi_time i) @ word_bytes (pi_size i) @ word_bytes (pi_ultimate i) @ strings_bytes (pi_sigs i) @
     string_bytes (pi_ca i)"

definition info_ok :: "path_info \<Rightarrow> bool" where
  "info_ok i \<longleftrightarrow> list_all short (pi_path i # pi_deriver i # pi_hash i # pi_ca i # pi_refs i @ pi_sigs i) \<and>
     length (pi_refs i) < 2 ^ 64 \<and> length (pi_sigs i) < 2 ^ 64"

lemma AddToStore_at:
  assumes "nc_out c = []" "writable (length (add_bytes n m r x)) c" "list_all message_ok ms" "info_ok i"
  shows "\<exists>accepts. AddToStore n m r x (at (concat (map message_bytes ms) @ word_bytes kStderrLast @ info_bytes i @ rest) c) =
    (Some (pi_path i), at rest (prints (concat (map printed ms)) (asked (add_bytes n m r x) accepts c)))"
    (is "\<exists>accepts. AddToStore n m r x (at ?s c) = _")
proof -
  obtain accepts where "Flush (emit (add_bytes n m r x) (at ?s c)) = (True, at ?s (asked (add_bytes n m r x) accepts c))"
    using assms(1,2) by (rule Flush_at)
  then show ?thesis
    using assms(3,4)
    by (intro exI [of _ accepts]) (simp add: AddToStore_def add_request_emit then_ok_def read_ok_def DrainStderr_messages
        DrainStderr_last info_ok_def info_bytes_def)
qed

text \<open>An error of the daemon: its type, level, name and message; positions and traces follow unread.\<close>

definition error_bytes :: "string \<Rightarrow> 64 word \<Rightarrow> string \<Rightarrow> string \<Rightarrow> string" where
  "error_bytes type level name msg =
     word_bytes kStderrError @ string_bytes type @ word_bytes level @ string_bytes name @ string_bytes msg"

lemma DrainStderr_error_at:
  "list_all short [type, name, msg] \<Longrightarrow>
   DrainStderr (at (error_bytes type level name msg @ rest) c) = (False, at rest (log_line (''nix-daemon: '' @ msg) c))"
  by (simp add: DrainStderr.simps [of "at (_ @ _) _"] drain_message_def error_bytes_def message_defs)

lemma AddToStore_error_at:
  assumes "nc_out c = []" "writable (length (add_bytes n m r x)) c" "list_all message_ok ms" "list_all short [type, name, msg]"
  shows "\<exists>accepts. AddToStore n m r x (at (concat (map message_bytes ms) @ error_bytes type level name msg @ rest) c) =
    (None, at rest (prints (concat (map printed ms) @ ''nix-daemon: '' @ msg @ [CHR 0x0A]) (asked (add_bytes n m r x) accepts c)))"
    (is "\<exists>accepts. AddToStore n m r x (at ?s c) = _")
proof -
  obtain accepts where "Flush (emit (add_bytes n m r x) (at ?s c)) = (True, at ?s (asked (add_bytes n m r x) accepts c))"
    using assms(1,2) by (rule Flush_at)
  then show ?thesis
    using assms(3,4)
    by (intro exI [of _ accepts]) (simp add: AddToStore_def add_request_emit then_ok_def DrainStderr_messages
        DrainStderr_error_at log_prints)
qed

text \<open>Back to a stream in pieces.\<close>

lemma AddToStore_pieces:
  assumes "\<exists>accepts. AddToStore n m r x (at (stream c) c) = (res, at rest (prints l (asked s accepts c)))"
  shows "\<exists>c'. AddToStore n m r x c = (res, c') \<and> stream c' = rest \<and> nc_sent c' = nc_sent c @ s \<and> nc_log c' = nc_log c @ l"
proof -
  from assms obtain accepts where "AddToStore n m r x (at (stream c) c) = (res, at rest (prints l (asked s accepts c)))" ..
  then have "fst (AddToStore n m r x c) = res" "alike (snd (AddToStore n m r x c)) (at rest (prints l (asked s accepts c)))"
    using uniformD [OF AddToStore_alike alike_at, of n m r x c] by simp_all
  then show ?thesis by (cases "AddToStore n m r x c") (simp add: alike_def prints_def)
qed

text \<open>C7: asked to add a text, a daemon that follows the protocol answers with any log traffic, the end of the
  traffic and the description of the new path.  The client then has sent exactly the request, printed the
  lines meant to be printed, consumed the whole answer and nothing else, and it returns the path, for
  every cut of the two streams into reads and writes.\<close>

theorem AddToStore_reply:
  assumes "nc_out c = []" "writable (length (add_bytes name ca_method refs contents)) c"
    and "stream c = concat (map message_bytes ms) @ word_bytes kStderrLast @ info_bytes i @ rest"
    and "list_all message_ok ms" "info_ok i"
  shows "\<exists>c'. AddToStore name ca_method refs contents c = (Some (pi_path i), c') \<and> stream c' = rest \<and>
    nc_sent c' = nc_sent c @ add_bytes name ca_method refs contents \<and> nc_log c' = nc_log c @ concat (map printed ms)"
  using AddToStore_at [OF assms(1,2,4,5), of rest, folded assms(3)] by (rule AddToStore_pieces)

definition demo_info :: path_info where
  "demo_info = \<lparr>pi_path = ''/s/x'', pi_deriver = [], pi_hash = ''h'', pi_refs = [''/s/r''], pi_time = 1, pi_size = 8,
     pi_ultimate = 0, pi_sigs = [], pi_ca = ''text:sha256''\<rparr>"

lemma word_bytes_start [simp]: "word_bytes v \<noteq> []"
  using length_word_bytes [of v] by (metis list.size(3) zero_neq_numeral)

theorem AddToStore_reply_witness:
  "\<exists>c'. AddToStore ''x'' ''text:sha256'' [''/s/r''] ''hello''
      (demo_conn [message_bytes (Next ''adding''), word_bytes kStderrLast @ info_bytes demo_info]) = (Some ''/s/x'', c') \<and>
    nc_log c' = ''adding'' @ [CHR 0x0A]"
proof -
  let ?c = "demo_conn [message_bytes (Next ''adding''), word_bytes kStderrLast @ info_bytes demo_info]"
  have "writable (length (add_bytes ''x'' ''text:sha256'' [''/s/r''] ''hello'')) ?c" by code_simp
  moreover have "stream ?c = concat (map message_bytes [Next ''adding'']) @ word_bytes kStderrLast @ info_bytes demo_info @ []"
    by (simp add: demo_conn_def)
  moreover have "list_all message_ok [Next ''adding'']" "info_ok demo_info"
    by (simp_all add: short_def info_ok_def demo_info_def)
  ultimately show ?thesis
    using AddToStore_reply [of ?c "''x''" "''text:sha256''" "[''/s/r'']" "''hello''" "[Next ''adding'']" demo_info "[]"]
    by (auto simp: demo_conn_def demo_info_def)
qed

text \<open>C29: an error of the daemon fails the command.  Its message is printed after the log lines, the exit
  status is 1 and no path is printed.\<close>

theorem add_error_fails:
  assumes "\<not> nt_offline t" "nc_out (nt_conn t) = []"
    and "writable (length (add_bytes name ''text:sha256'' refs contents)) (nt_conn t)"
    and "stream (nt_conn t) = concat (map message_bytes ms) @ error_bytes type level ename msg @ rest"
    and "list_all message_ok ms" "list_all short [type, ename, msg]"
  shows "\<exists>t'. run_add ns name refs contents t = (Some (1, []), t') \<and>
    nc_log (nt_conn t') = nc_log (nt_conn t) @ concat (map printed ms) @ ''nix-daemon: '' @ msg @ [CHR 0x0A]"
  using AddToStore_pieces [OF AddToStore_error_at [OF assms(2,3,5,6), of level rest, folded assms(4)]] assms(1)
  by (auto simp: run_add_def AddText_def)

theorem add_error_fails_witness:
  "\<exists>t'. run_add \<lparr>ns_dir = ''/s'', ns_parse = (\<lambda>_. None), ns_dump = (\<lambda>_. []), ns_stdin = []\<rparr> ''x'' [] ''hello''
      \<lparr>nt_offline = False, nt_conn = demo_conn [error_bytes ''Error'' 0 ''e'' ''disk full'']\<rparr> = (Some (1, []), t') \<and>
    nc_log (nt_conn t') = ''nix-daemon: disk full'' @ [CHR 0x0A]"
proof -
  let ?t = "\<lparr>nt_offline = False, nt_conn = demo_conn [error_bytes ''Error'' 0 ''e'' ''disk full'']\<rparr>"
  have "writable (length (add_bytes ''x'' ''text:sha256'' [] ''hello'')) (nt_conn ?t)" by code_simp
  moreover have "stream (nt_conn ?t) = concat (map message_bytes []) @ error_bytes ''Error'' 0 ''e'' ''disk full'' @ []"
    by (simp add: demo_conn_def error_bytes_def)
  moreover have "list_all short [''Error'', ''e'', ''disk full'']" by (simp add: short_def)
  ultimately show ?thesis
    using add_error_fails [of ?t "''x''" "[]" "''hello''" "[]" "''Error''" 0 "''e''" "''disk full''" "[]"]
    by (simp add: demo_conn_def)
qed

end
