(* ===== verification/Manifest.thy ===== *)
theory Manifest
  imports Store_Replay
begin

text \<open>
  \<open>manifest.cc\<close>: reading a depfile, writing the manifest of a compilation, and deciding from a stored
  manifest whether the compilation can be replayed.  What the program asks of its surroundings is a
  record: the hash function, the file contents, which paths exist, and the daemon's answers to an
  identity query.
\<close>

section \<open>Depfiles\<close>

definition depfile_flush :: "string \<Rightarrow> bool \<Rightarrow> string list \<times> bool" where
  "depfile_flush token after_colon =
     (if token = [] then ([], after_colon)
      else if after_colon then ([token], after_colon)
      else if last token = CHR '':'' then ([], True)
      else ([], after_colon))"

fun ParseDepfile_loop :: "string \<Rightarrow> string \<Rightarrow> bool \<Rightarrow> string list" where
  "ParseDepfile_loop [] token after_colon = fst (depfile_flush token after_colon)"
| "ParseDepfile_loop (cur # cs) token after_colon =
     (let nxt = (case cs of [] \<Rightarrow> CHR 0x0A | n # _ \<Rightarrow> n) in
      if cur = CHR 0x5C \<and> nxt = CHR 0x0A then ParseDepfile_loop (tl cs) token after_colon
      else if cur = CHR 0x5C \<and> nxt = CHR '' '' then ParseDepfile_loop (tl cs) (token @ '' '') after_colon
      else if cur = CHR 0x0A then
        (case depfile_flush token after_colon of (deps, after) \<Rightarrow>
           if after then deps else deps @ ParseDepfile_loop cs [] after)
      else if cur = CHR '' '' \<or> cur = CHR 0x09 then
        (case depfile_flush token after_colon of (deps, after) \<Rightarrow> deps @ ParseDepfile_loop cs [] after)
      else if cur = CHR '':'' \<and> \<not> after_colon \<and> (nxt = CHR '' '' \<or> nxt = CHR 0x0A \<or> nxt = CHR 0x5C)
      then ParseDepfile_loop cs [] True
      else ParseDepfile_loop cs (token @ [cur]) after_colon)"

definition ParseDepfile :: "string \<Rightarrow> string list" where
  "ParseDepfile s = ParseDepfile_loop s [] False"

text \<open>A depfile as compilers write it: the target, then every prerequisite after a blank or after a
  continued line, spaces in names escaped; after the first rule anything may follow.\<close>

definition dep_escape :: "string \<Rightarrow> string" where
  "dep_escape d = concat (map (\<lambda>c. if c = CHR '' '' then [CHR 0x5C, CHR '' ''] else [c]) d)"

definition dep_ok :: "string \<Rightarrow> bool" where
  "dep_ok d \<longleftrightarrow> d \<noteq> [] \<and> list_all (\<lambda>c. c \<noteq> CHR 0x5C \<and> c \<noteq> CHR 0x09 \<and> c \<noteq> CHR 0x0A) d"

definition dep_sep :: "bool \<Rightarrow> string" where
  "dep_sep broken = (if broken then [CHR '' '', CHR 0x5C, CHR 0x0A, CHR '' '', CHR '' ''] else '' '')"

definition depfile_text :: "string \<Rightarrow> (bool \<times> string) list \<Rightarrow> string \<Rightarrow> string" where
  "depfile_text target deps rest =
     target @ '':'' @ concat (map (\<lambda>(broken, d). dep_sep broken @ dep_escape d) deps) @ [CHR 0x0A] @ rest"

lemma ParseDepfile_name:
  "list_all (\<lambda>c. c \<noteq> CHR 0x5C \<and> c \<noteq> CHR 0x09 \<and> c \<noteq> CHR 0x0A) d \<Longrightarrow>
   ParseDepfile_loop (dep_escape d @ rest) token True = ParseDepfile_loop rest (token @ d) True"
  by (induction d arbitrary: token) (auto simp: dep_escape_def Let_def)

lemma ParseDepfile_sep:
  "ParseDepfile_loop (dep_sep broken @ rest) token True =
     (if token = [] then [] else [token]) @ ParseDepfile_loop rest [] True"
  by (simp add: dep_sep_def depfile_flush_def Let_def)

lemma ParseDepfile_deps:
  "list_all (\<lambda>(_, d). dep_ok d) deps \<Longrightarrow>
   ParseDepfile_loop (concat (map (\<lambda>(broken, d). dep_sep broken @ dep_escape d) deps) @ CHR 0x0A # rest) token True =
     (if token = [] then [] else [token]) @ map snd deps"
proof (induction deps arbitrary: token)
  case Nil
  show ?case by (simp add: depfile_flush_def Let_def)
next
  case (Cons bd deps)
  obtain b d where bd: "bd = (b, d)" by fastforce
  then show ?case
    using Cons by (simp add: ParseDepfile_sep ParseDepfile_name dep_ok_def)
qed

lemma ParseDepfile_target:
  assumes "list_all (\<lambda>c. c \<notin> {CHR 0x5C, CHR 0x09, CHR 0x0A, CHR '' '', CHR '':''}) target"
    and "rest \<noteq> []" "hd rest \<in> {CHR '' '', CHR 0x0A}"
  shows "ParseDepfile_loop (target @ CHR '':'' # rest) token False = ParseDepfile_loop rest [] True"
  using assms(1)
proof (induction target arbitrary: token)
  case Nil
  then show ?case using assms(2,3) by (cases rest) (auto simp: Let_def)
next
  case (Cons c target)
  then show ?case by (simp add: Let_def)
qed

text \<open>C40: \<open>ParseDepfile\<close> reads exactly the prerequisites of the first rule, in order: names with spaces
  come out unescaped, line continuations separate, and nothing after the rule is read.\<close>

theorem ParseDepfile_roundtrip:
  assumes "list_all (\<lambda>c. c \<notin> {CHR 0x5C, CHR 0x09, CHR 0x0A, CHR '' '', CHR '':''}) target"
    and "list_all (\<lambda>(_, d). dep_ok d) deps"
  shows "ParseDepfile (depfile_text target deps rest) = map snd deps"
proof -
  let ?body = "concat (map (\<lambda>(broken, d). dep_sep broken @ dep_escape d) deps) @ CHR 0x0A # rest"
  have "?body \<noteq> []" "hd ?body \<in> {CHR '' '', CHR 0x0A}"
    by (cases deps; auto simp: dep_sep_def split: prod.splits)+
  from ParseDepfile_target [OF assms(1) this, of "[]"] show ?thesis
    using ParseDepfile_deps [OF assms(2), of rest "[]"] by (simp add: ParseDepfile_def depfile_text_def)
qed

theorem ParseDepfile_roundtrip_witness:
  "ParseDepfile (depfile_text ''x.o'' [(False, ''a b.c''), (True, ''c:/h.h'')] ''h.h:'') = [''a b.c'', ''c:/h.h'']"
  using ParseDepfile_roundtrip [of "''x.o''" "[(False, ''a b.c''), (True, ''c:/h.h'')]" "''h.h:''"]
  by (simp add: dep_ok_def)

section \<open>The surroundings\<close>

record host =
  h_blake3 :: "string \<Rightarrow> string"
  h_read :: "string \<Rightarrow> string option"
  h_exists :: "string \<Rightarrow> bool"
  h_identities :: "string list \<Rightarrow> string list"

abbreviation host_InputId :: "host \<Rightarrow> store \<Rightarrow> string \<Rightarrow> string option" where
  "host_InputId h \<equiv> InputId (h_blake3 h) (h_read h)"

section \<open>Building and validating a manifest\<close>

record entry =
  e_path :: string
  e_line :: string
  e_tab :: "nat option"

fun ParseManifest_line :: "(string \<Rightarrow> string option) \<Rightarrow> string \<Rightarrow> entry list" where
  "ParseManifest_line resolve line =
     (if starts_with line ''!'' then
        [\<lparr>e_path = (case resolve (drop 1 line) of Some p \<Rightarrow> p | None \<Rightarrow> []), e_line = line, e_tab = None\<rparr>]
      else case find_str [CHR 0x09] line of
        Some tab \<Rightarrow>
          [\<lparr>e_path = (case resolve (take tab line) of Some p \<Rightarrow> p | None \<Rightarrow> []), e_line = line,
            e_tab = Some tab\<rparr>]
      | None \<Rightarrow> [])"

declare ParseManifest_line.simps [simp del]

definition ParseManifest :: "store \<Rightarrow> string \<Rightarrow> entry list" where
  "ParseManifest st s = concat (map (ParseManifest_line (Resolve st)) (Split s CHR 0x0A False))"

definition PrefetchIdentities :: "host \<Rightarrow> store \<Rightarrow> string list \<Rightarrow> store" where
  "PrefetchIdentities h st paths =
     (let ask = filter (DaemonMayIdentify st) paths in
      foldl (\<lambda>st (path, identity). if identity \<noteq> [] then RememberIdentity st path identity else st)
        st (zip ask (h_identities h ask)))"

record manifest =
  m_text :: string
  m_result_key :: string

definition manifest_inputs :: "host \<Rightarrow> store \<Rightarrow> string list \<Rightarrow> string \<Rightarrow> string list" where
  "manifest_inputs h st inputs primary_source =
     concat (map (\<lambda>path.
       if path = primary_source then []
       else case host_InputId h st path of
         Some identity \<Rightarrow> [Key st path @ [CHR 0x09] @ identity]
       | None \<Rightarrow> []) inputs)"

fun manifest_absent :: "host \<Rightarrow> store \<Rightarrow> string list \<Rightarrow> string list \<Rightarrow> string list" where
  "manifest_absent h st [] seen = []"
| "manifest_absent h st (path # absent) seen =
     (if path = [] \<or> IsStorePath st path \<or> h_exists h path then manifest_absent h st absent seen
      else let key = ''!'' @ Key st path in
        if key \<in> set seen then manifest_absent h st absent seen
        else key # manifest_absent h st absent (key # seen))"

definition manifest_text :: "string list \<Rightarrow> string" where
  "manifest_text lines = concat (map (\<lambda>line. line @ [CHR 0x0A]) lines)"

definition manifest_key :: "host \<Rightarrow> string \<Rightarrow> string list \<Rightarrow> string" where
  "manifest_key h request_key lines =
     ResultKey (Finish (h_blake3 h) (foldl Field (Field [] request_key) lines))"

definition BuildManifest ::
  "host \<Rightarrow> store \<Rightarrow> string \<Rightarrow> string list \<Rightarrow> string \<Rightarrow> string list \<Rightarrow> store \<times> manifest" where
  "BuildManifest h st request_key inputs primary_source absent =
     (let st = PrefetchIdentities h st inputs;
          lines = manifest_inputs h st inputs primary_source @ manifest_absent h st absent []
      in (st, \<lparr>m_text = manifest_text lines, m_result_key = manifest_key h request_key lines\<rparr>))"

fun ValidateEntries :: "host \<Rightarrow> store \<Rightarrow> entry list \<Rightarrow> hasher \<Rightarrow> string + hasher" where
  "ValidateEntries h st [] hs = Inr hs"
| "ValidateEntries h st (e # es) hs =
     (case e_tab e of
        None \<Rightarrow>
          if h_exists h (e_path e) then Inl (''appeared:'' @ drop 1 (e_line e))
          else ValidateEntries h st es (Field hs (e_line e))
      | Some tab \<Rightarrow>
          if host_InputId h st (e_path e) \<noteq> Some (drop (tab + 1) (e_line e))
          then Inl (''inputs-changed:'' @ take tab (e_line e))
          else ValidateEntries h st es (Field hs (e_line e)))"

definition ValidateManifest :: "host \<Rightarrow> store \<Rightarrow> string \<Rightarrow> string \<Rightarrow> store \<times> (string + string)" where
  "ValidateManifest h st request_key text =
     (let entries = ParseManifest st text;
          paths = map e_path (filter (\<lambda>e. e_tab e \<noteq> None) entries);
          st = PrefetchIdentities h st paths
      in (st, case ValidateEntries h st entries (Field [] request_key) of
                Inl err \<Rightarrow> Inl err
              | Inr hs \<Rightarrow> Inr (ResultKey (Finish (h_blake3 h) hs))))"

definition FindResult :: "host \<Rightarrow> (string \<Rightarrow> string option) \<Rightarrow> store \<Rightarrow> string \<Rightarrow> store \<times> (string + string)" where
  "FindResult h cache_get st request_key =
     (case cache_get (slot_Manifest request_key) of
        None \<Rightarrow> (st, Inl ''new-key'')
      | Some text \<Rightarrow> ValidateManifest h st request_key text)"

section \<open>What validation decides\<close>

definition entry_valid :: "host \<Rightarrow> store \<Rightarrow> entry \<Rightarrow> bool" where
  "entry_valid h st e =
     (case e_tab e of
        None \<Rightarrow> \<not> h_exists h (e_path e)
      | Some tab \<Rightarrow> host_InputId h st (e_path e) = Some (drop (tab + 1) (e_line e)))"

definition entry_error :: "entry \<Rightarrow> string" where
  "entry_error e =
     (case e_tab e of
        None \<Rightarrow> ''appeared:'' @ drop 1 (e_line e)
      | Some tab \<Rightarrow> ''inputs-changed:'' @ take tab (e_line e))"

lemma ValidateEntries_result:
  "ValidateEntries h st es hs =
     (case find (\<lambda>e. \<not> entry_valid h st e) es of
        None \<Rightarrow> Inr (foldl Field hs (map e_line es))
      | Some e \<Rightarrow> Inl (entry_error e))"
  by (induction es arbitrary: hs) (auto simp: entry_valid_def entry_error_def split: option.splits)

definition validation_store :: "host \<Rightarrow> store \<Rightarrow> string \<Rightarrow> store" where
  "validation_store h st s =
     PrefetchIdentities h st (map e_path (filter (\<lambda>e. e_tab e \<noteq> None) (ParseManifest st s)))"

lemma ValidateManifest_result:
  "ValidateManifest h st request_key s =
     (validation_store h st s,
      case find (\<lambda>e. \<not> entry_valid h (validation_store h st s) e) (ParseManifest st s) of
        None \<Rightarrow> Inr (manifest_key h request_key (map e_line (ParseManifest st s)))
      | Some e \<Rightarrow> Inl (entry_error e))"
  by (auto simp: ValidateManifest_def validation_store_def Let_def ValidateEntries_result manifest_key_def
      split: option.splits)

text \<open>C4: validation is exact.  It accepts a manifest precisely when every recorded input still has its
  recorded identity and every path recorded as absent is still absent; it then returns the key of exactly
  the recorded lines, and otherwise it names the first entry that no longer holds.\<close>

theorem ValidateManifest_exact:
  "snd (ValidateManifest h st request_key s) =
     (if list_all (entry_valid h (validation_store h st s)) (ParseManifest st s)
      then Inr (manifest_key h request_key (map e_line (ParseManifest st s)))
      else Inl (entry_error (hd (filter (\<lambda>e. \<not> entry_valid h (validation_store h st s) e) (ParseManifest st s)))))"
proof -
  have "find P xs = (if list_all (\<lambda>x. \<not> P x) xs then None else Some (hd (filter P xs)))" for P and xs :: "entry list"
    by (induction xs) auto
  then show ?thesis by (simp add: ValidateManifest_result)
qed

lemma Field_stream: "foldl Field (Field [] r) xs = foldl Field [] (r # xs)"
  by simp

lemma manifest_key_inj:
  assumes "inj_on (Finish (h_blake3 h)) {foldl Field [] (r # xs), foldl Field [] (r' # xs')}"
  shows "manifest_key h r xs = manifest_key h r' xs' \<longleftrightarrow> r = r' \<and> xs = xs'"
proof -
  have "foldl Field [] (r # xs) = foldl Field [] (r' # xs') \<longleftrightarrow> r # xs = r' # xs'"
    by (simp only: foldl_Field append_Nil frames_inj)
  with assms show ?thesis
    unfolding manifest_key_def ResultKey_def Field_stream inj_on_def by blast
qed

definition plain_host :: host where
  "plain_host = \<lparr>h_blake3 = (\<lambda>s. s), h_read = [''a.h'' \<mapsto> ''int x;''], h_exists = (\<lambda>p. p = ''a.h''),
     h_identities = map (\<lambda>_. [])\<rparr>"

text \<open>C22: two compilations get the same result key exactly if they made the same request and recorded
  the same lines, provided the hash does not collide on the two streams that were hashed.\<close>

theorem result_key_determines_inputs:
  assumes "inj_on (Finish (h_blake3 h))
      {foldl Field [] (r # manifest_lines), foldl Field [] (r' # manifest_lines')}"
  shows "manifest_key h r manifest_lines = manifest_key h r' manifest_lines' \<longleftrightarrow>
    r = r' \<and> manifest_lines = manifest_lines'"
  by (rule manifest_key_inj [OF assms])

theorem result_key_determines_inputs_witness:
  "manifest_key plain_host ''k'' [''a''] \<noteq> manifest_key plain_host ''k'' [''b'']"
proof -
  have "to_string 1 = ''1''" by code_simp
  then have "inj_on (Finish (h_blake3 plain_host)) {foldl Field [] [''k'', ''a''], foldl Field [] [''k'', ''b'']}"
    by (simp add: inj_on_def Finish_def HexEncode_inj plain_host_def Field_def Update_def)
  then show ?thesis
    using result_key_determines_inputs [of plain_host "''k''" "[''a'']" "''k''" "[''b'']"] by simp
qed

section \<open>The text of a manifest, as its readers and writers agree on it\<close>

text \<open>What the manifest code relies on in the store: a path in its key spelling fits on a line, cannot be
  taken for the record of an absent path, and resolves to the path again.\<close>

locale path_codec =
  fixes key :: "string \<Rightarrow> string"
    and resolve :: "string \<Rightarrow> string option"
    and known :: "string \<Rightarrow> bool"
  assumes resolve_key: "known p \<Longrightarrow> resolve (key p) = Some p"
    and key_line: "known p \<Longrightarrow> CHR 0x09 \<notin> set (key p) \<and> CHR 0x0A \<notin> set (key p)"
    and key_mark: "known p \<Longrightarrow> key p \<noteq> [] \<and> hd (key p) \<noteq> CHR ''!''"
begin

definition item_line :: "string \<times> string option \<Rightarrow> string" where
  "item_line = (\<lambda>(p, i). case i of Some identity \<Rightarrow> key p @ [CHR 0x09] @ identity | None \<Rightarrow> ''!'' @ key p)"

definition item_entry :: "string \<times> string option \<Rightarrow> entry" where
  "item_entry = (\<lambda>(p, i). \<lparr>e_path = p, e_line = item_line (p, i),
     e_tab = (case i of Some _ \<Rightarrow> Some (length (key p)) | None \<Rightarrow> None)\<rparr>)"

definition item_good :: "string \<times> string option \<Rightarrow> bool" where
  "item_good = (\<lambda>(p, i). known p \<and> (case i of Some identity \<Rightarrow> CHR 0x0A \<notin> set identity | None \<Rightarrow> True))"

lemma item_line_parse: "item_good it \<Longrightarrow> ParseManifest_line resolve (item_line it) = [item_entry it]"
proof (cases it)
  case (Pair p i)
  assume "item_good it"
  then have k: "known p" by (simp add: item_good_def Pair)
  have tab: "find_str [CHR 0x09] (key p @ CHR 0x09 # x) = Some (length (key p))" for x
    using key_line [OF k] by (simp add: find_str_char)
  have mark: "\<not> prefix ''!'' (key p @ x)" for x using key_mark [OF k] by (cases "key p") auto
  show ?thesis
    using Pair tab mark resolve_key [OF k]
    by (auto simp: ParseManifest_line.simps item_line_def item_entry_def split: option.splits)
qed

lemma item_line_ok: "item_good it \<Longrightarrow> item_line it \<noteq> [] \<and> CHR 0x0A \<notin> set (item_line it)"
  using key_line by (auto simp: item_good_def item_line_def split: option.splits prod.splits)

lemma manifest_text_split:
  "list_all item_good items \<Longrightarrow> Split (manifest_text (map item_line items)) CHR 0x0A False = map item_line items"
proof (induction items)
  case (Cons it items)
  then show ?case
    using item_line_ok [of it] by (auto simp: manifest_text_def Split_sep)
qed (simp add: manifest_text_def Split_Nil)

lemma manifest_text_parse:
  assumes "list_all item_good items"
  shows "concat (map (ParseManifest_line resolve) (Split (manifest_text (map item_line items)) CHR 0x0A False)) =
    map item_entry items"
  using assms item_line_parse unfolding manifest_text_split [OF assms] by (induction items) auto

end

section \<open>The store keeps the contract\<close>

definition stable_spelling :: "string \<Rightarrow> bool" where
  "stable_spelling p \<longleftrightarrow> MaskRandomNames (NormalizePathArg p) = p"

definition one_line :: "string \<Rightarrow> bool" where
  "one_line p \<longleftrightarrow> p \<noteq> [] \<and> hd p \<noteq> CHR ''!'' \<and> CHR 0x09 \<notin> set p \<and> CHR 0x0A \<notin> set p"

definition under_root :: "store \<Rightarrow> string \<Rightarrow> bool" where
  "under_root st p =
     (let h = substr p (length (st_dir st) + 1) kStoreHashLength;
          rest = drop (length (st_dir st) + kStoreHashLength + 2) p;
          name = takeWhile (\<lambda>c. c \<noteq> slash) rest
      in p = store_path (st_dir st) h rest \<and> IsStoreHash h \<and> no_store_dir (st_dir st) (''-'' @ rest) \<and>
         map_of (st_masked_to_real st) (store_path (st_dir st) ''*'' name) = Some (store_path (st_dir st) h name))"

text \<open>The paths a manifest can speak about: in normal form, without a random directory name, on one line;
  and outside the store, or inside one of the build's roots, or (when identities are paths) anywhere but
  under a masked name.\<close>

definition known_path :: "store \<Rightarrow> string \<Rightarrow> bool" where
  "known_path st p \<longleftrightarrow> stable_spelling p \<and> one_line p \<and>
     (no_store_dir (st_dir st) p \<or>
      (if st_by_content st then under_root st p else \<not> starts_with p (st_dir st @ ''/*-'')))"

lemma Resolve_outside: "no_store_dir (st_dir st) p \<Longrightarrow> Resolve st p = Some p"
  by (auto simp: Resolve_def no_store_dir_def prefix_def sublist_append)

lemma under_root_key:
  assumes "under_root st p"
  shows "Resolve st (MaskHashes st p) = Some p"
    and "\<exists>h rest. p = store_path (st_dir st) h rest \<and> MaskHashes st p = store_path (st_dir st) ''*'' rest"
proof -
  define h where "h = substr p (length (st_dir st) + 1) kStoreHashLength"
  define rest where "rest = drop (length (st_dir st) + kStoreHashLength + 2) p"
  let ?name = "takeWhile (\<lambda>c. c \<noteq> slash) rest" and ?sub = "dropWhile (\<lambda>c. c \<noteq> slash) rest"
  have p: "p = store_path (st_dir st) h rest" and h: "IsStoreHash h"
    and no: "no_store_dir (st_dir st) (''-'' @ ?name @ ?sub)"
    and root: "map_of (st_masked_to_real st) (store_path (st_dir st) ''*'' ?name) = Some (store_path (st_dir st) h ?name)"
    using assms unfolding under_root_def Let_def h_def [symmetric] rest_def [symmetric] by simp_all
  have name: "slash \<notin> set ?name" by (auto dest: set_takeWhileD)
  have sub: "?sub = [] \<or> hd ?sub = slash" using hd_dropWhile [of "\<lambda>c. c \<noteq> slash" rest] by blast
  from Resolve_masked [OF h no name sub root] show "Resolve st (MaskHashes st p) = Some p"
    using p by (simp add: store_path_def)
  show "\<exists>h rest. p = store_path (st_dir st) h rest \<and> MaskHashes st p = store_path (st_dir st) ''*'' rest"
    using MaskHashes_store_path [OF h, of st rest] no p by auto
qed

lemma one_line_store_path: "one_line (store_path dir h rest) \<Longrightarrow> one_line (store_path dir ''*'' rest)"
  by (cases dir) (auto simp: one_line_def store_path_def)

lemma known_path_key:
  assumes "known_path st p"
  shows "Resolve st (Key st p) = Some p \<and> one_line (Key st p)"
proof -
  have st: "stable_spelling p" "one_line p" using assms by (auto simp: known_path_def)
  then have key: "Key st p = (if st_by_content st then MaskHashes st p else p)"
    by (simp add: Key_def stable_spelling_def)
  show ?thesis
  proof (cases "no_store_dir (st_dir st) p")
    case True
    then show ?thesis using st key by (simp add: Resolve_outside no_store_dir_absent)
  next
    case no: False
    show ?thesis
    proof (cases "st_by_content st")
      case True
      then have "under_root st p" using assms no by (simp add: known_path_def)
      then obtain h rest where "p = store_path (st_dir st) h rest" "MaskHashes st p = store_path (st_dir st) ''*'' rest"
        "Resolve st (MaskHashes st p) = Some p"
        using under_root_key by blast
      then show ?thesis using st(2) key True one_line_store_path by simp
    next
      case False
      then show ?thesis
        using assms no st(2) key by (auto simp: known_path_def Resolve_def)
    qed
  qed
qed

interpretation store_codec: path_codec "Key st" "Resolve st" "known_path st" for st
proof (unfold_locales, goal_cases)
  case (1 p)
  then show ?case by (simp add: known_path_key)
next
  case (2 p)
  then show ?case using known_path_key by (auto simp: one_line_def)
next
  case (3 p)
  then show ?case using known_path_key by (auto simp: one_line_def)
qed

section \<open>Identities after a prefetch\<close>

lemma RememberIdentity_fields [simp]:
  "st_dir (RememberIdentity st p i) = st_dir st" "st_by_content (RememberIdentity st p i) = st_by_content st"
  "st_out (RememberIdentity st p i) = st_out st" "st_out_hash (RememberIdentity st p i) = st_out_hash st"
  "st_masked_to_real (RememberIdentity st p i) = st_masked_to_real st"
  "st_known_ids (RememberIdentity st p i) = (st_known_ids st)(p \<mapsto> i)"
  by (simp_all add: RememberIdentity_def)

definition remember :: "store \<Rightarrow> string \<times> string \<Rightarrow> store" where
  "remember st = (\<lambda>(path, identity). if identity \<noteq> [] then RememberIdentity st path identity else st)"

lemma remember_fields [simp]:
  "st_dir (foldl remember st xs) = st_dir st" "st_by_content (foldl remember st xs) = st_by_content st"
  "st_out (foldl remember st xs) = st_out st" "st_out_hash (foldl remember st xs) = st_out_hash st"
  "st_masked_to_real (foldl remember st xs) = st_masked_to_real st"
  by (induction xs arbitrary: st) (auto simp: remember_def split: prod.splits)

lemma Prefetch_remember:
  "PrefetchIdentities h st paths =
     foldl remember st (zip (filter (DaemonMayIdentify st) paths) (h_identities h (filter (DaemonMayIdentify st) paths)))"
  unfolding PrefetchIdentities_def Let_def remember_def [abs_def] by simp

lemma Prefetch_fields [simp]:
  "st_dir (PrefetchIdentities h st paths) = st_dir st"
  "st_by_content (PrefetchIdentities h st paths) = st_by_content st"
  "st_out (PrefetchIdentities h st paths) = st_out st"
  "st_out_hash (PrefetchIdentities h st paths) = st_out_hash st"
  "st_masked_to_real (PrefetchIdentities h st paths) = st_masked_to_real st"
  by (simp_all add: Prefetch_remember)

lemma Prefetch_same_text [simp]:
  "MaskHashes (PrefetchIdentities h st paths) = MaskHashes st"
  "Key (PrefetchIdentities h st paths) = Key st"
  "IsStorePath (PrefetchIdentities h st paths) = IsStorePath st"
  "Resolve (PrefetchIdentities h st paths) = Resolve st"
  "MaskOut (PrefetchIdentities h st paths) = MaskOut st"
  by (simp_all add: fun_eq_iff MaskHashes_def Key_def IsStorePath_def Resolve_def MaskOut_def SwapOutHash_def
      out_pattern_def Let_def)

lemma Prefetch_wf: "store_wf st \<Longrightarrow> store_wf (PrefetchIdentities h st paths)"
  by (simp add: store_wf_def)

text \<open>A daemon that answers for every path on its own.\<close>

definition answers :: "host \<Rightarrow> (string \<Rightarrow> string) \<Rightarrow> bool" where
  "answers h f \<longleftrightarrow> (\<forall>ask. h_identities h ask = map f ask)"

lemma remember_zip:
  "st_known_ids (foldl remember st (zip xs (map f xs))) p =
     (if p \<in> set xs \<and> f p \<noteq> [] then Some (f p) else st_known_ids st p)"
  by (induction xs arbitrary: st) (auto simp: remember_def)

lemma Prefetch_known_ids:
  "answers h f \<Longrightarrow> st_known_ids (PrefetchIdentities h st paths) p =
     (if p \<in> set paths \<and> DaemonMayIdentify st p \<and> f p \<noteq> [] then Some (f p) else st_known_ids st p)"
  by (simp add: Prefetch_remember remember_zip answers_def)

lemma InputId_Prefetch:
  assumes "answers h f" "p \<in> set paths" "p \<in> set paths'"
  shows "host_InputId h (PrefetchIdentities h st paths) p = host_InputId h (PrefetchIdentities h st paths') p"
  using assms by (simp add: InputId_def Prefetch_known_ids split: option.splits)

lemma newline_not_hex [simp]: "CHR 0x0A \<notin> set (HexEncode s)"
  using set_HexEncode [of "CHR 0x0A" s] by auto

lemma InputId_one_line:
  assumes "answers h f" "\<And>q. CHR 0x0A \<notin> set (f q)" "st_known_ids st = Map.empty" "one_line p"
    and "host_InputId h (PrefetchIdentities h st paths) p = Some i"
  shows "CHR 0x0A \<notin> set i"
  using assms(2-5) by (auto simp: InputId_def Prefetch_known_ids [OF assms(1)] one_line_def HashOf_def Finish_def
      split: if_splits option.splits)

text \<open>Identities the process learnt earlier do not matter, as long as they are answers of the same daemon:
  a manifest is built and validated as by a process that asked nothing before.\<close>

definition ids_from :: "(string \<Rightarrow> string) \<Rightarrow> store \<Rightarrow> bool" where
  "ids_from f st \<longleftrightarrow> (\<forall>p i. st_known_ids st p = Some i \<longrightarrow> i = f p \<and> i \<noteq> [] \<and> DaemonMayIdentify st p)"

abbreviation forget_ids :: "store \<Rightarrow> store" where
  "forget_ids st \<equiv> st\<lparr>st_known_ids := Map.empty\<rparr>"

lemma ids_from_fresh [simp, intro]: "st_known_ids st = Map.empty \<Longrightarrow> ids_from f st"
  by (simp add: ids_from_def)

lemma DaemonMayIdentify_fields:
  "st_by_content st' = st_by_content st \<Longrightarrow> st_dir st' = st_dir st \<Longrightarrow> st_out st' = st_out st \<Longrightarrow>
   DaemonMayIdentify st' = DaemonMayIdentify st"
  by (simp add: fun_eq_iff DaemonMayIdentify_def IsStorePath_def Let_def)

lemma ids_from_Prefetch:
  assumes "answers h f" "ids_from f st"
  shows "ids_from f (PrefetchIdentities h st paths)"
proof -
  have "DaemonMayIdentify (PrefetchIdentities h st paths) = DaemonMayIdentify st"
    by (rule DaemonMayIdentify_fields) simp_all
  then show ?thesis using assms by (auto simp: ids_from_def Prefetch_known_ids split: if_splits)
qed

lemma forget_ids_text [simp]:
  "MaskHashes (forget_ids st) = MaskHashes st" "Key (forget_ids st) = Key st" "IsStorePath (forget_ids st) = IsStorePath st"
  "Resolve (forget_ids st) = Resolve st" "MaskOut (forget_ids st) = MaskOut st"
  "DaemonMayIdentify (forget_ids st) = DaemonMayIdentify st"
  by (simp_all add: fun_eq_iff MaskHashes_def Key_def IsStorePath_def Resolve_def MaskOut_def SwapOutHash_def
      out_pattern_def DaemonMayIdentify_def Let_def)

lemma InputId_forget:
  assumes "answers h f" "ids_from f st" "p \<in> set paths"
  shows "host_InputId h (PrefetchIdentities h st paths) p = host_InputId h (PrefetchIdentities h (forget_ids st) paths) p"
proof -
  have "st_known_ids (PrefetchIdentities h st paths) p = st_known_ids (PrefetchIdentities h (forget_ids st) paths) p"
    using assms by (cases "st_known_ids st p") (auto simp: Prefetch_known_ids ids_from_def)
  then show ?thesis by (simp add: InputId_def split: option.split)
qed

lemma manifest_absent_forget:
  "manifest_absent h (PrefetchIdentities h st ps) absent seen =
   manifest_absent h (PrefetchIdentities h (forget_ids st) ps) absent seen"
  by (induction absent arbitrary: seen) (simp_all add: Let_def)

lemma BuildManifest_forget:
  assumes "answers h f" "ids_from f st"
  shows "snd (BuildManifest h st rk inputs primary absent) = snd (BuildManifest h (forget_ids st) rk inputs primary absent)"
proof -
  have "manifest_inputs h (PrefetchIdentities h st inputs) inputs primary =
      manifest_inputs h (PrefetchIdentities h (forget_ids st) inputs) inputs primary"
    unfolding manifest_inputs_def
    by (intro arg_cong [where f = concat] map_cong) (simp_all add: InputId_forget [OF assms] split: option.split)
  then show ?thesis by (simp add: BuildManifest_def Let_def manifest_absent_forget [of h st])
qed

lemma ParseManifest_forget: "ParseManifest (forget_ids st) = ParseManifest st"
  by (simp add: fun_eq_iff ParseManifest_def)

lemma entry_valid_forget:
  assumes "answers h f" "ids_from f st" "e \<in> set (ParseManifest st s)"
  shows "entry_valid h (validation_store h st s) e = entry_valid h (validation_store h (forget_ids st) s) e"
proof (cases "e_tab e")
  case (Some tab)
  then have "e_path e \<in> set (map e_path (filter (\<lambda>e. e_tab e \<noteq> None) (ParseManifest st s)))"
    using assms(3) by auto
  from InputId_forget [OF assms(1,2) this] show ?thesis
    by (simp add: entry_valid_def Some validation_store_def ParseManifest_forget)
qed (simp add: entry_valid_def)

lemma ValidateManifest_forget:
  assumes "answers h f" "ids_from f st"
  shows "snd (ValidateManifest h st rk s) = snd (ValidateManifest h (forget_ids st) rk s)"
proof -
  have "find (\<lambda>e. \<not> entry_valid h (validation_store h st s) e) (ParseManifest st s) =
      find (\<lambda>e. \<not> entry_valid h (validation_store h (forget_ids st) s) e) (ParseManifest st s)"
    using entry_valid_forget [OF assms] by (intro find_cong) auto
  then show ?thesis by (simp add: ValidateManifest_result ParseManifest_forget split: option.split)
qed

section \<open>Building and validating in an unchanged tree\<close>

definition input_items :: "host \<Rightarrow> store \<Rightarrow> string list \<Rightarrow> string \<Rightarrow> (string \<times> string option) list" where
  "input_items h st inputs primary =
     map (\<lambda>p. (p, host_InputId h st p)) (filter (\<lambda>p. p \<noteq> primary \<and> host_InputId h st p \<noteq> None) inputs)"

lemma manifest_inputs_items:
  "manifest_inputs h (PrefetchIdentities h st ps) inputs primary =
     map (store_codec.item_line st) (input_items h (PrefetchIdentities h st ps) inputs primary)"
  by (induction inputs) (auto simp: manifest_inputs_def input_items_def store_codec.item_line_def)

lemma manifest_absent_items:
  obtains qs where "manifest_absent h (PrefetchIdentities h st ps) absent seen = map (store_codec.item_line st) (map (\<lambda>q. (q, None)) qs)"
    "\<forall>q \<in> set qs. q \<in> set absent \<and> \<not> h_exists h q"
proof -
  have "\<exists>qs. manifest_absent h (PrefetchIdentities h st ps) absent seen =
      map (store_codec.item_line st) (map (\<lambda>q. (q, None)) qs) \<and> (\<forall>q \<in> set qs. q \<in> set absent \<and> \<not> h_exists h q)"
  proof (induction absent arbitrary: seen)
    case Nil
    show ?case by simp
  next
    case (Cons a absent)
    let ?key = "''!'' @ Key st a"
    obtain qs where qs: "manifest_absent h (PrefetchIdentities h st ps) absent (?key # seen) =
        map (store_codec.item_line st) (map (\<lambda>q. (q, None)) qs)" "\<forall>q \<in> set qs. q \<in> set absent \<and> \<not> h_exists h q"
      using Cons by blast
    obtain qs' where qs': "manifest_absent h (PrefetchIdentities h st ps) absent seen =
        map (store_codec.item_line st) (map (\<lambda>q. (q, None)) qs')" "\<forall>q \<in> set qs'. q \<in> set absent \<and> \<not> h_exists h q"
      using Cons by blast
    show ?case
    proof (cases "a = [] \<or> IsStorePath st a \<or> h_exists h a \<or> ?key \<in> set seen")
      case True
      then show ?thesis using qs' by (intro exI [of _ qs']) (auto simp: Let_def)
    next
      case False
      then show ?thesis
        using qs by (intro exI [of _ "a # qs"]) (auto simp: Let_def store_codec.item_line_def)
    qed
  qed
  then show ?thesis using that by blast
qed

lemma ParseManifest_items:
  "list_all (store_codec.item_good st) items \<Longrightarrow>
   ParseManifest st (manifest_text (map (store_codec.item_line st) items)) = map (store_codec.item_entry st) items"
  unfolding ParseManifest_def by (rule store_codec.manifest_text_parse)

lemma BuildManifest_items:
  assumes daemon: "answers h f" "\<And>q. CHR 0x0A \<notin> set (f q)" and fresh: "st_known_ids st = Map.empty"
    and known: "list_all (known_path st) (inputs @ absent)"
    and built: "BuildManifest h st request_key inputs primary absent = (st', m)"
  obtains items where "m_text m = manifest_text (map (store_codec.item_line st) items)"
    "m_result_key m = manifest_key h request_key (map (store_codec.item_line st) items)"
    "list_all (store_codec.item_good st) items"
    "\<And>p i. (p, Some i) \<in> set items \<Longrightarrow> p \<in> set inputs \<and> host_InputId h (PrefetchIdentities h st inputs) p = Some i"
    "\<And>p. (p, None) \<in> set items \<Longrightarrow> p \<in> set absent \<and> \<not> h_exists h p"
proof -
  let ?st = "PrefetchIdentities h st inputs"
  let ?in = "input_items h ?st inputs primary"
  obtain qs where qs: "manifest_absent h ?st absent [] = map (store_codec.item_line st) (map (\<lambda>q. (q, None)) qs)"
    and absent: "\<forall>q \<in> set qs. q \<in> set absent \<and> \<not> h_exists h q"
    by (rule manifest_absent_items)
  let ?items = "?in @ map (\<lambda>q. (q, None)) qs"
  have line: "one_line p" if "p \<in> set inputs" for p
    using known that by (auto simp: list_all_iff known_path_def)
  have good: "list_all (store_codec.item_good st) ?items"
    using known absent InputId_one_line [OF daemon fresh line]
    by (auto simp: list_all_iff store_codec.item_good_def input_items_def split: option.splits)
  show ?thesis
  proof (rule that [OF _ _ good])
    show "m_text m = manifest_text (map (store_codec.item_line st) ?items)"
      "m_result_key m = manifest_key h request_key (map (store_codec.item_line st) ?items)"
      using built qs by (auto simp: BuildManifest_def Let_def manifest_inputs_items)
  qed (use absent in \<open>auto simp: input_items_def\<close>)
qed

lemma items_valid:
  assumes "answers h f" "ParseManifest st s = map (store_codec.item_entry st) items"
    and "\<And>p i. (p, Some i) \<in> set items \<Longrightarrow> p \<in> set inputs \<and> host_InputId h (PrefetchIdentities h st inputs) p = Some i"
    and "\<And>p. (p, None) \<in> set items \<Longrightarrow> \<not> h_exists h p"
    and it: "(p, i) \<in> set items"
  shows "entry_valid h (validation_store h st s) (store_codec.item_entry st (p, i))"
proof (cases i)
  case None
  then show ?thesis using assms(4) it by (simp add: entry_valid_def store_codec.item_entry_def)
next
  case (Some identity)
  let ?paths = "map e_path (filter (\<lambda>e. e_tab e \<noteq> None) (map (store_codec.item_entry st) items))"
  have "p \<in> set ?paths" using it Some by (force simp: store_codec.item_entry_def)
  moreover have "p \<in> set inputs" "host_InputId h (PrefetchIdentities h st inputs) p = Some identity"
    using assms(3) it Some by auto
  ultimately show ?thesis
    using Some InputId_Prefetch [OF assms(1), of p inputs ?paths st]
    by (simp add: entry_valid_def validation_store_def assms(2) store_codec.item_entry_def store_codec.item_line_def)
qed

lemma ValidateManifest_accepts:
  assumes "list_all (entry_valid h (validation_store h st s)) (ParseManifest st s)"
  shows "snd (ValidateManifest h st request_key s) = Inr (manifest_key h request_key (map e_line (ParseManifest st s)))"
proof -
  have "find (\<lambda>e. \<not> entry_valid h (validation_store h st s) e) (ParseManifest st s) = None"
    using assms by (simp add: find_None_iff list_all_iff)
  then show ?thesis by (simp add: ValidateManifest_result)
qed

text \<open>What a later run needs of the tree: the recorded inputs read the same and what was absent still is.\<close>

definition same_inputs :: "host \<Rightarrow> host \<Rightarrow> string list \<Rightarrow> string list \<Rightarrow> bool" where
  "same_inputs h h' inputs absent \<longleftrightarrow> h_blake3 h' = h_blake3 h \<and>
     list_all (\<lambda>p. h_read h' p = h_read h p) inputs \<and> list_all (\<lambda>p. h_exists h' p \<longrightarrow> h_exists h p) absent"

lemma same_inputs_refl [simp]: "same_inputs h h inputs absent"
  by (simp add: same_inputs_def list_all_iff)

lemma InputId_same_inputs:
  assumes "answers h f" "answers h' f" "same_inputs h h' inputs absent" "p \<in> set inputs"
  shows "host_InputId h' (PrefetchIdentities h' st inputs) p = host_InputId h (PrefetchIdentities h st inputs) p"
  using assms by (simp add: InputId_def Prefetch_known_ids same_inputs_def list_all_iff split: option.split)

lemma BuildManifest_validates:
  assumes daemon: "answers h f" "answers h' f" "\<And>q. CHR 0x0A \<notin> set (f q)" and fresh: "st_known_ids st = Map.empty"
    and known: "list_all (known_path st) (inputs @ absent)"
    and built: "BuildManifest h st request_key inputs primary absent = (st', m)"
    and same: "same_inputs h h' inputs absent"
  shows "snd (ValidateManifest h' st request_key (m_text m)) = Inr (m_result_key m)"
proof -
  from BuildManifest_items [OF daemon(1,3) fresh known built] obtain items
    where m: "m_text m = manifest_text (map (store_codec.item_line st) items)"
      "m_result_key m = manifest_key h request_key (map (store_codec.item_line st) items)"
      and good: "list_all (store_codec.item_good st) items"
      and items: "\<And>p i. (p, Some i) \<in> set items \<Longrightarrow>
        p \<in> set inputs \<and> host_InputId h (PrefetchIdentities h st inputs) p = Some i"
      "\<And>p. (p, None) \<in> set items \<Longrightarrow> p \<in> set absent \<and> \<not> h_exists h p"
    by blast
  have items': "(p, Some i) \<in> set items \<Longrightarrow> p \<in> set inputs \<and> host_InputId h' (PrefetchIdentities h' st inputs) p = Some i"
    "(p, None) \<in> set items \<Longrightarrow> \<not> h_exists h' p" for p i
    using items InputId_same_inputs [OF daemon(1,2) same, of p st] same
    by (auto simp: same_inputs_def list_all_iff)
  have parse: "ParseManifest st (m_text m) = map (store_codec.item_entry st) items"
    unfolding m(1) by (rule ParseManifest_items [OF good])
  have "list_all (entry_valid h' (validation_store h' st (m_text m))) (ParseManifest st (m_text m))"
    using items_valid [OF daemon(2) parse items'] by (auto simp: parse list_all_iff)
  moreover have "map e_line (ParseManifest st (m_text m)) = map (store_codec.item_line st) items"
    by (auto simp: parse store_codec.item_entry_def)
  moreover have "manifest_key h' = manifest_key h"
    using same by (intro ext) (simp add: manifest_key_def same_inputs_def)
  ultimately show ?thesis using ValidateManifest_accepts m(2) by simp
qed

text \<open>The same for processes that have asked the daemon before: the store of the later run differs only in
  what it learnt.\<close>

lemma BuildManifest_found:
  assumes daemon: "answers h f" "answers h' f" "\<And>q. CHR 0x0A \<notin> set (f q)"
    and ids: "ids_from f st" "ids_from f st'" "forget_ids st' = forget_ids st"
    and known: "list_all (known_path (forget_ids st)) (inputs @ absent)"
    and same: "same_inputs h h' inputs absent"
  shows "snd (ValidateManifest h' st' request_key (m_text (snd (BuildManifest h st request_key inputs primary absent)))) =
    Inr (m_result_key (snd (BuildManifest h st request_key inputs primary absent)))"
  unfolding BuildManifest_forget [OF daemon(1) ids(1)] ValidateManifest_forget [OF daemon(2) ids(2)] ids(3)
  by (rule BuildManifest_validates [OF daemon _ known prod.collapse [symmetric] same]) simp


definition later_host :: host where
  "later_host = plain_host\<lparr>h_read := [''a.h'' \<mapsto> ''int x;'', ''new.h'' \<mapsto> ''int y;''],
     h_exists := (\<lambda>p. p = ''a.h'' \<or> p = ''new.h'')\<rparr>"


end
