(* ===== verification/World.thy ===== *)
theory World
  imports Manifest "HOL-Library.State_Monad"
begin

text \<open>
  The state the tool modes of jig run in, and the operations of the lower components as computations of
  the state monad: files, environment, the two output streams, the process's \<open>Store\<close>, and the cache as
  the connection presents it.  The cache is the map the daemon promises to be (theory \<open>Daemon\<close> shows that
  the wire protocol keeps that promise), except that any exchange may fail.
\<close>

section \<open>State and surroundings\<close>

text \<open>What can happen to one exchange with the daemon: it succeeds, the request is lost, or the request is
  served and the answer is lost.\<close>

datatype fault = NoFault | Lost | Unanswered

record world =
  w_files :: file_map
  w_env :: env
  w_executable :: "string \<Rightarrow> bool"
  w_stdout :: string
  w_stderr :: string
  w_store :: store
  w_open :: bool
  w_cache :: "string \<Rightarrow> string option"
  w_held :: "string list"
  w_faults :: "fault list"

text \<open>One run of a child process as its parent sees it: whether the pipe and the fork succeed, whether
  \<open>execvp\<close> finds the program, what the parent reads from the standard error of the child, how often \<open>waitpid\<close>
  is interrupted and how it ends, what the child prints and how it leaves the files.\<close>

datatype wait_end = Exited nat | Signaled nat | WaitFailed

record child =
  ch_pipe :: bool
  ch_fork :: bool
  ch_found :: bool
  ch_reads :: "string list"
  ch_eintr :: nat
  ch_end :: wait_end
  ch_stdout :: string
  ch_files :: file_map

text \<open>What does not change while the program runs: the machine, the other programs and the daemon.\<close>

record sys =
  sy_pid :: nat
  sy_cwd :: string
  sy_blake3 :: "string \<Rightarrow> string"
  sy_write :: "string \<Rightarrow> write_plan"
  sy_append :: "string \<Rightarrow> bool"
  sy_is_dir :: "string \<Rightarrow> bool"
  sy_canonical :: "string \<Rightarrow> string option"
  sy_list :: "string \<Rightarrow> (string \<times> bool) list"
  sy_ident :: "string \<Rightarrow> string"
  sy_connect :: "string \<Rightarrow> bool"
  sy_exec :: "string \<Rightarrow> string list \<Rightarrow> env \<Rightarrow> file_map \<Rightarrow> child"
  sy_error :: string
  sy_ms :: string

type_synonym 'a run = "(world, 'a) state"

named_theorems run_simps

abbreviation give :: "'a \<Rightarrow> 'a run" where
  "give \<equiv> State_Monad.return"

definition gets :: "(world \<Rightarrow> 'a) \<Rightarrow> 'a run" where
  "gets f = State (\<lambda>w. (f w, w))"

definition modify :: "(world \<Rightarrow> world) \<Rightarrow> unit run" where
  "modify f = State (\<lambda>w. ((), f w))"

lemma run_gets [run_simps]: "run_state (gets f) w = (f w, w)"
  by (simp add: gets_def)

lemma run_modify [run_simps]: "run_state (modify f) w = ((), f w)"
  by (simp add: modify_def)

lemma run_bind [run_simps]: "run_state (State_Monad.bind m f) w = run_state (f (fst (run_state m w))) (snd (run_state m w))"
  by (simp add: case_prod_beta)

lemma run_give [run_simps]: "run_state (give a) w = (a, w)"
  by simp

lemma run_if [run_simps]: "run_state (if b then m else n) w = (if b then run_state m w else run_state n w)"
  by simp

section \<open>Files, environment and output\<close>

definition read_file :: "string \<Rightarrow> string option run" where
  "read_file path = gets (\<lambda>w. w_files w path)"

definition remove_file :: "string \<Rightarrow> unit run" where
  "remove_file path = modify (\<lambda>w. w\<lparr>w_files := (w_files w)(path := None)\<rparr>)"

definition append_file :: "sys \<Rightarrow> string \<Rightarrow> string \<Rightarrow> unit run" where
  "append_file sys path data = modify (\<lambda>w.
     if sy_append sys path
     then w\<lparr>w_files := (w_files w)(path \<mapsto> (case w_files w path of None \<Rightarrow> [] | Some old \<Rightarrow> old) @ data)\<rparr>
     else w)"

definition write_file :: "sys \<Rightarrow> string \<Rightarrow> string \<Rightarrow> bool run" where
  "write_file sys path data = State (\<lambda>w.
     case WriteFile (sy_write sys path) (sy_pid sys) (w_files w) path data of
       (ok, states) \<Rightarrow> (ok, w\<lparr>w_files := last states\<rparr>))"

definition add_exec_bits :: "string \<Rightarrow> unit run" where
  "add_exec_bits path = modify (\<lambda>w. w\<lparr>w_executable := (w_executable w)(path := True)\<rparr>)"

definition print_out :: "string \<Rightarrow> unit run" where
  "print_out s = modify (\<lambda>w. w\<lparr>w_stdout := w_stdout w @ s\<rparr>)"

definition print_err :: "string \<Rightarrow> unit run" where
  "print_err s = modify (\<lambda>w. w\<lparr>w_stderr := w_stderr w @ s\<rparr>)"

definition get_env :: "string \<Rightarrow> string \<Rightarrow> string run" where
  "get_env name fallback = gets (\<lambda>w. Env (w_env w) name fallback)"

definition setenv :: "string \<Rightarrow> string \<Rightarrow> unit run" where
  "setenv name value = modify (\<lambda>w. w\<lparr>w_env := (w_env w)(name \<mapsto> value)\<rparr>)"

definition unsetenv :: "string \<Rightarrow> unit run" where
  "unsetenv name = modify (\<lambda>w. w\<lparr>w_env := (w_env w)(name := None)\<rparr>)"

definition log_outcome :: "sys \<Rightarrow> string \<Rightarrow> outcome \<Rightarrow> string \<Rightarrow> unit run" where
  "log_outcome sys tool outcome subject = do {
     path \<leftarrow> get_env ''JIG_LOG'' [];
     if path = [] then give ()
     else append_file sys path (LogOutcome path [] tool outcome subject (sy_ms sys))
   }"

section \<open>The cache\<close>

definition next_fault :: "fault run" where
  "next_fault = State (\<lambda>w. case w_faults w of [] \<Rightarrow> (NoFault, w) | f # fs \<Rightarrow> (f, w\<lparr>w_faults := fs\<rparr>))"

definition cache_connect :: "sys \<Rightarrow> string \<Rightarrow> bool run" where
  "cache_connect sys socket_path = State (\<lambda>w.
     if sy_connect sys socket_path then (True, w\<lparr>w_open := True\<rparr>) else (False, w))"

definition cache_get :: "string \<Rightarrow> string option run" where
  "cache_get key = do {
     up \<leftarrow> gets w_open;
     if \<not> up then give None
     else do { f \<leftarrow> next_fault; gets (\<lambda>w. if f = NoFault then w_cache w key else None) }
   }"

fun cache_get_many :: "string list \<Rightarrow> string option list run" where
  "cache_get_many [] = give []"
| "cache_get_many (key # keys) = do { v \<leftarrow> cache_get key; vs \<leftarrow> cache_get_many keys; give (v # vs) }"

definition cache_put :: "string \<Rightarrow> string \<Rightarrow> unit run" where
  "cache_put key value = do {
     up \<leftarrow> gets w_open;
     if \<not> up then give ()
     else do {
       f \<leftarrow> next_fault;
       modify (\<lambda>w. if f = Lost then w else w\<lparr>w_cache := (w_cache w)(key \<mapsto> value)\<rparr>)
     }
   }"

fun cache_put_many :: "(string \<times> string) list \<Rightarrow> unit run" where
  "cache_put_many [] = give ()"
| "cache_put_many ((key, value) # items) = do { cache_put key value; cache_put_many items }"

definition cache_has :: "string \<Rightarrow> bool run" where
  "cache_has key = do { v \<leftarrow> cache_get key; give (v \<noteq> None) }"

fun cache_has_many :: "string list \<Rightarrow> bool list run" where
  "cache_has_many [] = give []"
| "cache_has_many (key # keys) = do { v \<leftarrow> cache_has key; vs \<leftarrow> cache_has_many keys; give (v # vs) }"

definition cache_acquire :: "string \<Rightarrow> bool run" where
  "cache_acquire build = do {
     up \<leftarrow> gets w_open;
     if \<not> up then give False
     else do {
       f \<leftarrow> next_fault;
       modify (\<lambda>w. if f = Lost then w else w\<lparr>w_held := build # w_held w\<rparr>);
       give (f = NoFault)
     }
   }"

definition cache_release :: "string \<Rightarrow> unit run" where
  "cache_release build = do {
     up \<leftarrow> gets w_open;
     if \<not> up then give ()
     else do {
       f \<leftarrow> next_fault;
       modify (\<lambda>w. if f = Lost then w else w\<lparr>w_held := remove1 build (w_held w)\<rparr>)
     }
   }"

text \<open>The surroundings of the manifest code.  A daemon that cannot be asked identifies nothing.\<close>

definition path_exists :: "sys \<Rightarrow> world \<Rightarrow> string \<Rightarrow> bool" where
  "path_exists sys w path \<longleftrightarrow> w_files w path \<noteq> None \<or> sy_is_dir sys path"

definition host_of :: "sys \<Rightarrow> bool \<Rightarrow> world \<Rightarrow> host" where
  "host_of sys answered w = \<lparr>h_blake3 = sy_blake3 sys, h_read = w_files w, h_exists = path_exists sys w,
     h_identities = map (if answered then sy_ident sys else (\<lambda>_. []))\<rparr>"

definition ask_host :: "sys \<Rightarrow> host run" where
  "ask_host sys = do {
     up \<leftarrow> gets w_open;
     f \<leftarrow> (if up then next_fault else give Lost);
     gets (host_of sys (f = NoFault))
   }"

definition prefetch :: "sys \<Rightarrow> string list \<Rightarrow> unit run" where
  "prefetch sys paths = do {
     h \<leftarrow> ask_host sys;
     modify (\<lambda>w. w\<lparr>w_store := PrefetchIdentities h (w_store w) paths\<rparr>)
   }"

definition input_id :: "sys \<Rightarrow> string \<Rightarrow> string option run" where
  "input_id sys path = gets (\<lambda>w. InputId (sy_blake3 sys) (w_files w) (w_store w) path)"

definition build_manifest :: "sys \<Rightarrow> string \<Rightarrow> string list \<Rightarrow> string \<Rightarrow> string list \<Rightarrow> manifest run" where
  "build_manifest sys request_key inputs primary_source absent = do {
     h \<leftarrow> ask_host sys;
     State (\<lambda>w. case BuildManifest h (w_store w) request_key inputs primary_source absent of
       (st, m) \<Rightarrow> (m, w\<lparr>w_store := st\<rparr>))
   }"

definition find_result :: "sys \<Rightarrow> string \<Rightarrow> (string + string) run" where
  "find_result sys request_key = do {
     found \<leftarrow> cache_get (slot_Manifest request_key);
     h \<leftarrow> ask_host sys;
     State (\<lambda>w. case FindResult h (\<lambda>_. found) (w_store w) request_key of (st, r) \<Rightarrow> (r, w\<lparr>w_store := st\<rparr>))
   }"

section \<open>The operations on a state\<close>

lemma run_read_file [run_simps]: "run_state (read_file path) w = (w_files w path, w)"
  by (simp add: read_file_def run_simps)

lemma run_remove_file [run_simps]:
  "run_state (remove_file path) w = ((), w\<lparr>w_files := (w_files w)(path := None)\<rparr>)"
  by (simp add: remove_file_def run_simps)

lemma run_print [run_simps]:
  "run_state (print_out s) w = ((), w\<lparr>w_stdout := w_stdout w @ s\<rparr>)"
  "run_state (print_err s) w = ((), w\<lparr>w_stderr := w_stderr w @ s\<rparr>)"
  by (simp_all add: print_out_def print_err_def run_simps)

lemma run_env [run_simps]:
  "run_state (get_env name fallback) w = (Env (w_env w) name fallback, w)"
  "run_state (setenv name value) w = ((), w\<lparr>w_env := (w_env w)(name \<mapsto> value)\<rparr>)"
  "run_state (unsetenv name) w = ((), w\<lparr>w_env := (w_env w)(name := None)\<rparr>)"
  by (simp_all add: get_env_def setenv_def unsetenv_def run_simps)

lemma run_write_file [run_simps]:
  "run_state (write_file sys path data) w =
     (fst (WriteFile (sy_write sys path) (sy_pid sys) (w_files w) path data),
      w\<lparr>w_files := last (snd (WriteFile (sy_write sys path) (sy_pid sys) (w_files w) path data))\<rparr>)"
  by (simp add: write_file_def case_prod_beta)

lemma run_add_exec_bits [run_simps]:
  "run_state (add_exec_bits path) w = ((), w\<lparr>w_executable := (w_executable w)(path := True)\<rparr>)"
  by (simp add: add_exec_bits_def run_simps)

lemma run_input_id [run_simps]:
  "run_state (input_id sys path) w = (InputId (sy_blake3 sys) (w_files w) (w_store w) path, w)"
  by (simp add: input_id_def run_simps)

text \<open>With a connection that answers.\<close>

abbreviation reliable :: "world \<Rightarrow> bool" where
  "reliable w \<equiv> w_open w \<and> w_faults w = []"

lemma run_next_fault [run_simps]: "w_faults w = [] \<Longrightarrow> run_state next_fault w = (NoFault, w)"
  by (simp add: next_fault_def)

lemma run_cache_get [run_simps]: "reliable w \<Longrightarrow> run_state (cache_get key) w = (w_cache w key, w)"
  by (simp add: cache_get_def run_simps)

lemma run_cache_get_many [run_simps]:
  "reliable w \<Longrightarrow> run_state (cache_get_many keys) w = (map (w_cache w) keys, w)"
  by (induction keys) (simp_all add: run_simps)

lemma run_cache_put [run_simps]:
  "reliable w \<Longrightarrow> run_state (cache_put key value) w = ((), w\<lparr>w_cache := (w_cache w)(key \<mapsto> value)\<rparr>)"
  by (simp add: cache_put_def run_simps)

lemma run_cache_put_many [run_simps]:
  "reliable w \<Longrightarrow> run_state (cache_put_many items) w = ((), w\<lparr>w_cache := w_cache w ++ map_of (rev items)\<rparr>)"
proof (induction items arbitrary: w)
  case (Cons item items)
  then show ?case by (cases item) (simp add: run_simps del: fun_upd_apply)
qed (simp add: run_simps)

lemma run_cache_has_many [run_simps]:
  "reliable w \<Longrightarrow> run_state (cache_has_many keys) w = (map (\<lambda>key. w_cache w key \<noteq> None) keys, w)"
  by (induction keys) (simp_all add: run_simps cache_has_def)

lemma run_ask_host [run_simps]: "reliable w \<Longrightarrow> run_state (ask_host sys) w = (host_of sys True w, w)"
  by (simp add: ask_host_def run_simps)

lemma run_build_manifest [run_simps]:
  "reliable w \<Longrightarrow> run_state (build_manifest sys request_key inputs primary absent) w =
     (let r = BuildManifest (host_of sys True w) (w_store w) request_key inputs primary absent in
      (snd r, w\<lparr>w_store := fst r\<rparr>))"
  by (simp add: build_manifest_def run_simps Let_def case_prod_beta)

lemma run_find_result [run_simps]:
  "reliable w \<Longrightarrow> run_state (find_result sys request_key) w =
     (let r = FindResult (host_of sys True w) (w_cache w) (w_store w) request_key in
      (snd r, w\<lparr>w_store := fst r\<rparr>))"
  by (simp add: find_result_def run_simps Let_def case_prod_beta FindResult_def split: option.split)

lemma host_of_fields [simp]:
  "h_blake3 (host_of sys a w) = sy_blake3 sys" "h_read (host_of sys a w) = w_files w"
  "h_exists (host_of sys a w) = path_exists sys w"
  by (simp_all add: host_of_def)

lemma answers_host_of [simp, intro]: "answers (host_of sys True w) (sy_ident sys)"
  by (simp add: answers_def host_of_def)

text \<open>What writing and logging leave behind.\<close>

lemma WriteFile_files:
  "WriteFile plan pid files path data = (ok, states) \<Longrightarrow>
   last states path = (if ok then Some data else files path) \<and>
   (q \<noteq> path \<longrightarrow> q \<noteq> WriteFile_tmp pid path \<longrightarrow> last states q = files q)"
  unfolding WriteFile_def Let_def
  by (auto split: if_splits option.splits simp: WriteFile_tmp_neq [symmetric])

lemma run_log_outcome [run_simps]:
  "run_state (log_outcome sys tool outcome subject) w =
     (let path = Env (w_env w) ''JIG_LOG'' [] in
      ((), if path = [] \<or> \<not> sy_append sys path then w
           else w\<lparr>w_files := (w_files w)(path \<mapsto> (case w_files w path of None \<Rightarrow> [] | Some old \<Rightarrow> old) @
                  LogOutcome path [] tool outcome subject (sy_ms sys))\<rparr>))"
  by (simp add: log_outcome_def append_file_def run_simps Let_def)

end
