(* ===== verification/Process.thy ===== *)
theory Process
  imports World
begin

text \<open>
  \<open>process.cc\<close>: admission of a compiler run by the daemon (\<open>Slot\<close>), running a child process (\<open>Run\<close>), and
  deciding whether what it said is worth remembering (\<open>Deterministic\<close>).  The constructor and the destructor
  of \<open>Slot\<close> are two computations; \<open>with_slot\<close> is the block they bracket.
\<close>

definition kExecFailedStatus :: int where
  "kExecFailedStatus = 127"

definition kSignalStatusBase :: int where
  "kSignalStatusBase = 128"

definition kSlotEnv :: string where
  "kSlotEnv = ''JIG_SLOT''"

section \<open>Slots\<close>

definition slot_construct :: "sys \<Rightarrow> string \<Rightarrow> string option run" where
  "slot_construct sys socket_path = do {
     inherited \<leftarrow> get_env kSlotEnv [];
     if inherited \<noteq> [] then give None
     else do {
       up \<leftarrow> gets w_open;
       connected \<leftarrow> (if up then give True else cache_connect sys socket_path);
       if \<not> connected then give None
       else do {
         build \<leftarrow> get_env ''NIX_BUILD_TOP'' ''-'';
         got \<leftarrow> cache_acquire build;
         if got then do { setenv kSlotEnv ''1''; give (Some build) } else give None
       }
     }
   }"

definition slot_destruct :: "string option \<Rightarrow> unit run" where
  "slot_destruct slot =
     (case slot of None \<Rightarrow> give () | Some build \<Rightarrow> do { cache_release build; unsetenv kSlotEnv })"

definition with_slot :: "sys \<Rightarrow> string \<Rightarrow> 'a run \<Rightarrow> 'a run" where
  "with_slot sys socket_path body = do {
     slot \<leftarrow> slot_construct sys socket_path;
     result \<leftarrow> body;
     slot_destruct slot;
     give result
   }"

section \<open>Running a program\<close>

datatype stderr_mode = KInherit | KCapture

record run_result =
  rr_status :: int
  rr_stderr :: string

text \<open>\<open>read(2)\<close> until it returns nothing.\<close>

fun read_pipe :: "string list \<Rightarrow> string" where
  "read_pipe [] = []"
| "read_pipe (chunk # chunks) = (if chunk = [] then [] else chunk @ read_pipe chunks)"

text \<open>\<open>waitpid\<close> again while it is interrupted.\<close>

fun wait_loop :: "nat \<Rightarrow> wait_end \<Rightarrow> wait_end" where
  "wait_loop 0 e = e"
| "wait_loop (Suc n) e = wait_loop n e"

definition wait_status :: "wait_end \<Rightarrow> int" where
  "wait_status e =
     (case e of Exited n \<Rightarrow> int n | Signaled n \<Rightarrow> kSignalStatusBase + int n | WaitFailed \<Rightarrow> 1)"

definition exec_child :: "child \<Rightarrow> file_map \<Rightarrow> child" where
  "exec_child ch files =
     (if ch_found ch then ch
      else ch\<lparr>ch_reads := [], ch_end := Exited (nat kExecFailedStatus), ch_stdout := [], ch_files := files\<rparr>)"

definition Run :: "sys \<Rightarrow> string \<Rightarrow> string list \<Rightarrow> stderr_mode \<Rightarrow> run_result run" where
  "Run sys program args mode = State (\<lambda>w.
     let ch = sy_exec sys program args (w_env w) (w_files w);
         capture = (mode = KCapture \<and> ch_pipe ch)
     in if \<not> ch_fork ch
        then (\<lparr>rr_status = kExecFailedStatus, rr_stderr = ''jig: fork failed'' @ [CHR 0x0A]\<rparr>, w)
        else let ch = exec_child ch (w_files w);
                 heard = (if capture then read_pipe (ch_reads ch) else []);
                 shown = (if capture then [] else concat (ch_reads ch))
             in (\<lparr>rr_status = wait_status (wait_loop (ch_eintr ch) (ch_end ch)), rr_stderr = heard\<rparr>,
                 w\<lparr>w_files := ch_files ch, w_stdout := w_stdout w @ ch_stdout ch, w_stderr := w_stderr w @ shown\<rparr>))"

definition Deterministic :: "run_result \<Rightarrow> bool" where
  "Deterministic r \<longleftrightarrow> rr_status r < kSignalStatusBase \<and>
     \<not> contains (rr_stderr r) ''unable to execute command'' \<and>
     \<not> contains (rr_stderr r) ''PLEASE submit a bug report''"

section \<open>What a block under a slot does\<close>

lemma wait_loop_end [simp]: "wait_loop n e = e"
  by (induction n) simp_all

lemma read_pipe_text: "list_all (\<lambda>c. c \<noteq> []) chunks \<Longrightarrow> read_pipe chunks = concat chunks"
  by (induction chunks) simp_all

text \<open>What the block may do to the connection and to the variable: nothing that outlives it.\<close>

definition keeps_slot :: "'a run \<Rightarrow> bool" where
  "keeps_slot m \<longleftrightarrow> state_io_rel (\<lambda>w w'. w_held w' = w_held w \<and> w_open w' = w_open w \<and>
     w_env w' kSlotEnv = w_env w kSlotEnv \<and> (w_faults w = [] \<longrightarrow> w_faults w' = [])) m"

lemma keeps_slotD:
  assumes "keeps_slot m" "run_state m w = (a, w')"
  shows "w_held w' = w_held w \<and> w_open w' = w_open w \<and> w_env w' kSlotEnv = w_env w kSlotEnv \<and>
    (w_faults w = [] \<longrightarrow> w_faults w' = [])"
  using assms unfolding keeps_slot_def state_io_rel_def by (metis snd_conv)

lemma keeps_slotI:
  "(\<And>w. w_held (snd (run_state m w)) = w_held w \<and> w_open (snd (run_state m w)) = w_open w \<and>
     w_env (snd (run_state m w)) kSlotEnv = w_env w kSlotEnv \<and>
     (w_faults w = [] \<longrightarrow> w_faults (snd (run_state m w)) = [])) \<Longrightarrow> keeps_slot m"
  by (simp add: keeps_slot_def state_io_rel_def)

lemma keeps_slot_Run [simp, intro]: "keeps_slot (Run sys program args mode)"
  by (rule keeps_slotI) (simp add: Run_def Let_def)

lemma keeps_slot_bind:
  "keeps_slot m \<Longrightarrow> (\<And>a. keeps_slot (f a)) \<Longrightarrow> keeps_slot (State_Monad.bind m f)"
  unfolding keeps_slot_def state_io_rel_def by (simp add: case_prod_beta)

lemma keeps_slot_give [simp, intro]: "keeps_slot (give a)"
  by (rule keeps_slotI) simp

lemma run_slot_construct [run_simps]:
  "reliable w \<Longrightarrow> run_state (slot_construct sys socket_path) w =
     (if Env (w_env w) kSlotEnv [] \<noteq> [] then (None, w)
      else let build = Env (w_env w) ''NIX_BUILD_TOP'' ''-'' in
        (Some build, w\<lparr>w_held := build # w_held w, w_env := (w_env w)(kSlotEnv \<mapsto> ''1'')\<rparr>))"
  by (simp add: slot_construct_def cache_acquire_def run_simps Let_def)

lemma slot_construct_inherited:
  "w_env w kSlotEnv = Some ''1'' \<Longrightarrow> run_state (slot_construct sys socket_path) w = (None, w)"
  by (simp add: slot_construct_def run_simps Env_def)

lemma run_with_slot:
  assumes "keeps_slot body" "reliable w" "Env (w_env w) kSlotEnv [] = []"
    and "run_state body (w\<lparr>w_held := Env (w_env w) ''NIX_BUILD_TOP'' ''-'' # w_held w,
      w_env := (w_env w)(kSlotEnv \<mapsto> ''1'')\<rparr>) = (a, w1)"
  shows "run_state (with_slot sys socket_path body) w =
    (a, w1\<lparr>w_held := w_held w, w_env := (w_env w1)(kSlotEnv := None)\<rparr>)"
proof -
  let ?w0 = "w\<lparr>w_held := Env (w_env w) ''NIX_BUILD_TOP'' ''-'' # w_held w, w_env := (w_env w)(kSlotEnv \<mapsto> ''1'')\<rparr>"
  have kept: "w_held w1 = w_held ?w0 \<and> w_open w1 = w_open ?w0 \<and> (w_faults ?w0 = [] \<longrightarrow> w_faults w1 = [])"
    using keeps_slotD [OF assms(1,4)] by blast
  then have "reliable w1" using assms(2) by simp
  then have "run_state (slot_destruct (Some b)) w1 =
      ((), w1\<lparr>w_held := remove1 b (w_held w1), w_env := (w_env w1)(kSlotEnv := None)\<rparr>)" for b
    by (simp add: slot_destruct_def cache_release_def run_simps)
  with kept assms show ?thesis by (simp add: with_slot_def run_simps Let_def)
qed

text \<open>C30: a slot is held exactly for the block that needs it.  With a daemon that answers, a block that
  runs a compiler returns every slot it took and leaves \<open>JIG_SLOT\<close> as it was (empty or inherited), and a
  process that inherited the slot of its parent takes none, so a compiler that runs the linker through jig
  never waits for a slot its own parent holds.\<close>

theorem with_slot_balanced:
  assumes "keeps_slot body" "reliable w"
  shows "w_held (snd (run_state (with_slot sys socket_path body) w)) = w_held w \<and>
    Env (w_env (snd (run_state (with_slot sys socket_path body) w))) kSlotEnv [] = Env (w_env w) kSlotEnv [] \<and>
    (w_env w' kSlotEnv = Some ''1'' \<longrightarrow> run_state (slot_construct sys socket_path') w' = (None, w'))"
proof (cases "Env (w_env w) kSlotEnv [] = []")
  case True
  then show ?thesis
    using run_with_slot [OF assms True surjective_pairing] slot_construct_inherited
    by (simp add: Env_def)
next
  case False
  then have "run_state (with_slot sys socket_path body) w = run_state body w"
    using assms(2) by (simp add: with_slot_def slot_destruct_def run_simps)
  moreover have "w_held (snd (run_state body w)) = w_held w"
    "w_env (snd (run_state body w)) kSlotEnv = w_env w kSlotEnv"
    using keeps_slotD [OF assms(1) surjective_pairing] by blast+
  ultimately show ?thesis using slot_construct_inherited by (simp add: Env_def)
qed

definition demo_sys :: sys where
  "demo_sys = \<lparr>sy_pid = 7, sy_cwd = ''/build'', sy_blake3 = id,
     sy_write = (\<lambda>_. \<lparr>wp_open = True, wp_full = None, wp_rename = True\<rparr>), sy_append = (\<lambda>_. True),
     sy_is_dir = (\<lambda>p. p = ''/tmp''), sy_canonical = Some, sy_list = (\<lambda>_. []), sy_ident = (\<lambda>_. []),
     sy_connect = (\<lambda>_. True),
     sy_exec = (\<lambda>program args env files. \<lparr>ch_pipe = True, ch_fork = True, ch_found = (program = ''cc''),
       ch_reads = [''warn''], ch_eintr = 1, ch_end = Exited 0, ch_stdout = [],
       ch_files = files(''x.o'' \<mapsto> ''obj'', ''./.jig7.d'' \<mapsto> ''x.o: x.c a.h'')\<rparr>),
     sy_error = ''error'', sy_ms = ''3''\<rparr>"

definition demo_world :: world where
  "demo_world = \<lparr>w_files = [''x.c'' \<mapsto> ''int x;'', ''a.h'' \<mapsto> ''int a;''], w_env = [''NIX_BUILD_TOP'' \<mapsto> ''/b''],
     w_executable = (\<lambda>_. False), w_stdout = [], w_stderr = [], w_store = nix_store, w_open = True,
     w_cache = Map.empty, w_held = [], w_faults = []\<rparr>"

theorem with_slot_balanced_witness:
  "w_held (snd (run_state (with_slot demo_sys ''s'' (Run demo_sys ''cc'' [] KCapture)) demo_world)) = []"
  using with_slot_balanced [of "Run demo_sys ''cc'' [] KCapture" demo_world demo_sys "''s''"]
  by (simp add: demo_world_def)



end
