(* ===== verification/Base64.thy ===== *)
theory Base64
  imports Prelude "HOL-Library.Word"
begin

unbundle bit_operations_syntax

text \<open>
  The base64 coder of \<open>gocache_mode.cc\<close>.  Both directions shift bits through a 32-bit accumulator; the lemmas
  read the accumulator as a number below two to the power of the pending bits and show that decoding inverts
  encoding.
\<close>

section \<open>The program\<close>

definition kAlphabet64 :: string where
  "kAlphabet64 = ''ABCDEFGHIJKLMNOPQRSTUVWXYZabcdefghijklmnopqrstuvwxyz0123456789+/''"

definition kInvalid :: nat where
  "kInvalid = 0xff"

definition MakeDecodeTable :: "nat list" where
  "MakeDecodeTable =
     foldl (\<lambda>table i. table[of_char (kAlphabet64 ! i) := i]) (replicate 256 kInvalid) [0..<length kAlphabet64]"

text \<open>The inner loop: sextets leave the accumulator while six bits are pending.\<close>

function encode_flush :: "32 word \<Rightarrow> nat \<Rightarrow> string \<Rightarrow> nat \<times> string" where
  "encode_flush acc bits out =
     (if bits \<ge> 6 then encode_flush acc (bits - 6) (out @ [kAlphabet64 ! unat (drop_bit (bits - 6) acc AND 0x3f)])
      else (bits, out))"
  by pat_completeness auto
termination
  by (relation "measure (\<lambda>(_, bits, _). bits)") simp_all

declare encode_flush.simps [simp del]

fun encode_loop :: "string \<Rightarrow> 32 word \<Rightarrow> nat \<Rightarrow> string \<Rightarrow> 32 word \<times> nat \<times> string" where
  "encode_loop [] acc bits out = (acc, bits, out)"
| "encode_loop (c # cs) acc bits out =
     (let acc = push_bit 8 acc OR word_of_nat (of_char c) in
      case encode_flush acc (bits + 8) out of
        (bits, out) \<Rightarrow> encode_loop cs (acc AND (push_bit bits 1 - 1)) bits out)"

function pad_equals :: "string \<Rightarrow> string" where
  "pad_equals out = (if length out mod 4 \<noteq> 0 then pad_equals (out @ [CHR ''='']) else out)"
  by pat_completeness auto
termination
  by (relation "measure (\<lambda>out. (4 - length out mod 4) mod 4)") (auto simp: mod_Suc)

declare pad_equals.simps [simp del]

definition Base64Encode :: "string \<Rightarrow> string" where
  "Base64Encode bytes =
     (case encode_loop bytes 0 0 [] of
        (acc, bits, out) \<Rightarrow>
          pad_equals (if bits > 0 then out @ [kAlphabet64 ! unat (push_bit (6 - bits) acc AND 0x3f)] else out))"

fun decode_loop :: "string \<Rightarrow> 32 word \<Rightarrow> nat \<Rightarrow> string \<Rightarrow> string" where
  "decode_loop [] acc bits out = out"
| "decode_loop (c # cs) acc bits out =
     (let sextet = MakeDecodeTable ! of_char c in
      if sextet = kInvalid then decode_loop cs acc bits out
      else
        let acc = push_bit 6 acc OR word_of_nat sextet;
            bits = bits + 6
        in if bits \<ge> 8
           then decode_loop cs (acc AND (push_bit (bits - 8) 1 - 1)) (bits - 8)
                  (out @ [char_of (unat (drop_bit (bits - 8) acc AND 0xff))])
           else decode_loop cs (acc AND (push_bit bits 1 - 1)) bits out)"

definition Base64Decode :: "string \<Rightarrow> string" where
  "Base64Decode s = decode_loop s 0 0 []"

section \<open>The accumulator as a number\<close>

lemma shift_or: "c < 2 ^ k \<Longrightarrow> push_bit k n OR c = n * 2 ^ k + (c :: nat)"
proof -
  assume "c < 2 ^ k"
  then have "\<not> bit c i" if "k \<le> i" for i
    using that bit_take_bit_iff [of k c i] by (simp add: take_bit_nat_eq_self)
  then have "push_bit k n + c = push_bit k n OR c"
    by (intro disjunctive_add) (auto simp: bit_push_bit_iff)
  then show ?thesis by (simp add: push_bit_eq_mult)
qed

lemma shift_in:
  fixes acc :: "32 word"
  assumes "unat acc < 2 ^ 8" "c < 2 ^ k" "k \<le> 8"
  shows "unat (push_bit k acc OR word_of_nat c) = unat acc * 2 ^ k + c"
proof -
  have "(2 :: nat) ^ k \<le> 2 ^ 8" using assms(3) by (intro power_increasing) simp_all
  then have "unat acc * 2 ^ k \<le> 255 * 2 ^ 8" "c < 2 ^ 8" using assms(1,2) mult_le_mono [of "unat acc" 255 "2 ^ k" "2 ^ 8"] by simp_all
  then have "unat (push_bit k acc) = push_bit k (unat acc)" "unat (word_of_nat c :: 32 word) = c"
    by (simp_all add: unsigned_push_bit_eq take_bit_nat_eq_self push_bit_nat_def unat_of_nat)
  then show ?thesis using shift_or [OF assms(2)] by (simp add: unsigned_or_eq)
qed

lemma low_bits: "acc AND (push_bit k 1 - 1) = (word_of_nat (unat acc mod 2 ^ k) :: 32 word)" if "k < 32"
proof -
  have "push_bit k 1 - 1 = (mask k :: 32 word)" by (simp add: mask_eq_exp_minus_1 push_bit_eq_mult)
  then have "unat (acc AND (push_bit k 1 - 1) :: 32 word) = unat acc mod 2 ^ k"
    by (simp add: take_bit_eq_mask [symmetric] unsigned_take_bit_eq take_bit_nat_def)
  then show ?thesis 
    using le_less_trans [OF mod_less_eq_dividend unsigned_less, of acc "2 ^ k"] by (simp add: word_unat_eq_iff unat_of_nat)
qed

lemma unat_field: "unat (drop_bit k acc AND mask n :: 32 word) = unat acc div 2 ^ k mod 2 ^ n"
  using unsigned_less [of acc, where ?'a = nat]
  by (simp add: take_bit_eq_mask [symmetric] unsigned_take_bit_eq unsigned_drop_bit_eq take_bit_nat_def drop_bit_nat_def)

lemma sextet_of: "unat (acc AND 0x3f :: 32 word) = unat acc mod 64"
  using unat_field [of 0 acc 6] by (simp add: mask_numeral)

lemma octet_of: "unat (acc AND 0xff :: 32 word) = unat acc mod 256"
  using unat_field [of 0 acc 8] by (simp add: mask_numeral)

lemma unat_shifted: "unat (drop_bit k acc :: 32 word) = unat acc div 2 ^ k"
  by (simp add: unat_drop_bit_eq drop_bit_nat_def)

lemmas acc_simps = sextet_of octet_of unat_shifted
  low_bits [of 2, simplified] low_bits [of 4, simplified]

section \<open>Three bytes, four characters\<close>

text \<open>The states between two characters: nothing, two bits or four bits pending on the way in, and nothing,
  six, four or two bits on the way out.\<close>

lemma acc_word: "n < 2 ^ 8 \<Longrightarrow> unat (word_of_nat n :: 32 word) = n"
  by (simp add: unat_of_nat)

lemma encode_word:
  "w = push_bit 8 acc OR word_of_nat (of_char a) \<Longrightarrow> encode_loop (a # cs) acc bits out =
     (case encode_flush w (bits + 8) out of (bits, out) \<Rightarrow> encode_loop cs (w AND (push_bit bits 1 - 1)) bits out)"
  by (simp only: encode_loop.simps Let_def)

lemma encode_0:
  "encode_loop (a # cs) 0 0 out = encode_loop cs (word_of_nat (of_char a mod 4)) 2 (out @ [kAlphabet64 ! (of_char a div 4)])"
proof -
  define w :: "32 word" where "w = push_bit 8 0 OR word_of_nat (of_char a)"
  have "of_char a div 4 < (64 :: nat)" "unat w = of_char a"
    using of_char_less [of a] shift_in [of 0 "of_char a" 8] by (linarith, simp add: w_def)
  then show ?thesis
    unfolding encode_word [OF w_def]
    by (simp add: encode_flush.simps [of _ 8] encode_flush.simps [of _ 2] acc_simps)
qed

lemma encode_2:
  assumes "n < 4"
  shows "encode_loop (a # cs) (word_of_nat n) 2 out =
     encode_loop cs (word_of_nat ((n * 256 + of_char a) mod 16)) 4 (out @ [kAlphabet64 ! ((n * 256 + of_char a) div 16)])"
proof -
  define w :: "32 word" where "w = push_bit 8 (word_of_nat n) OR word_of_nat (of_char a)"
  have "unat w = n * 256 + of_char a"
    using shift_in [of "word_of_nat n" "of_char a" 8] assms acc_word [of n] by (simp add: w_def)
  moreover have "(n * 256 + of_char a) div 16 < 64" using assms of_char_less [of a] by linarith
  ultimately show ?thesis
    unfolding encode_word [OF w_def]
    by (simp add: encode_flush.simps [of _ 10] encode_flush.simps [of _ 4] acc_simps)
qed

lemma encode_4:
  assumes "n < 16"
  shows "encode_loop (a # cs) (word_of_nat n) 4 out =
     encode_loop cs 0 0 (out @ [kAlphabet64 ! ((n * 256 + of_char a) div 64), kAlphabet64 ! ((n * 256 + of_char a) mod 64)])"
proof -
  define w :: "32 word" where "w = push_bit 8 (word_of_nat n) OR word_of_nat (of_char a)"
  have "unat w = n * 256 + of_char a"
    using shift_in [of "word_of_nat n" "of_char a" 8] assms acc_word [of n] by (simp add: w_def)
  moreover have "(n * 256 + of_char a) div 64 < 64" using assms of_char_less [of a] by linarith
  ultimately show ?thesis
    unfolding encode_word [OF w_def]
    by (simp add: encode_flush.simps [of _ 12] encode_flush.simps [of _ 6]
        encode_flush.simps [of _ 0] acc_simps)
qed

lemma table_fold:
  "inj_on f {..<n} \<Longrightarrow> (\<forall>i < n. f i < length t) \<Longrightarrow>
   (\<forall>i < n. foldl (\<lambda>t i. t[f i := i]) t [0..<n] ! f i = i) \<and>
   (\<forall>k. k \<notin> f ` {..<n} \<longrightarrow> foldl (\<lambda>t i. t[f i := i]) t [0..<n] ! k = t ! k) \<and>
   length (foldl (\<lambda>t i. t[f i := i]) t [0..<n]) = length t"
proof (induction n)
  case (Suc n)
  then have IH: "(\<forall>i < n. foldl (\<lambda>t i. t[f i := i]) t [0..<n] ! f i = i) \<and>
    (\<forall>k. k \<notin> f ` {..<n} \<longrightarrow> foldl (\<lambda>t i. t[f i := i]) t [0..<n] ! k = t ! k) \<and>
    length (foldl (\<lambda>t i. t[f i := i]) t [0..<n]) = length t"
    by (auto simp: lessThan_Suc)
  have "f i \<noteq> f n" "f n \<noteq> f i" if "i < n" for i using inj_onD [OF Suc.prems(1), of i n] that by auto
  then show ?case using IH Suc.prems(2) by (auto simp: nth_list_update less_Suc_eq lessThan_Suc)
qed simp

lemma distinct_alphabet: "distinct kAlphabet64" "length kAlphabet64 = 64" "CHR ''='' \<notin> set kAlphabet64"
  by (simp_all add: kAlphabet64_def)

lemma decode_table:
  "i < 64 \<Longrightarrow> MakeDecodeTable ! of_char (kAlphabet64 ! i) = i" "MakeDecodeTable ! of_char CHR ''='' = kInvalid"
proof -
  define f where "f = (\<lambda>i. of_char (kAlphabet64 ! i) :: nat)"
  define t where "t = replicate 256 kInvalid"
  have t: "length t = 256" "t ! of_char CHR ''='' = kInvalid" unfolding t_def by (simp_all only: length_replicate nth_replicate of_char_less)
  have table: "MakeDecodeTable = foldl (\<lambda>t i. t[f i := i]) t [0..<64]"
    by (simp only: MakeDecodeTable_def f_def t_def distinct_alphabet(2))
  have inj: "inj_on f {..<64}"
    using distinct_alphabet(1,2) by (auto simp: f_def inj_on_def nth_eq_iff_index_eq of_char_eq_iff)
  have "kAlphabet64 ! i \<noteq> CHR ''=''" if "i < 64" for i
    using that distinct_alphabet(2,3) nth_mem [of i kAlphabet64] by force
  then have other: "of_char CHR ''='' \<notin> f ` {..<64}" unfolding f_def of_char_eq_iff image_iff by force
  have "\<forall>i < 64. f i < length t" unfolding t(1) f_def by (intro allI impI of_char_less)
  note fold = table_fold [OF inj this, folded table]
  show "i < 64 \<Longrightarrow> MakeDecodeTable ! of_char (kAlphabet64 ! i) = i" using fold unfolding f_def by blast
  show "MakeDecodeTable ! of_char CHR ''='' = kInvalid" using fold other t(2) by metis
qed

lemma decode_word:
  assumes "i < 64" "w = push_bit 6 acc OR word_of_nat i"
  shows "decode_loop (kAlphabet64 ! i # cs) acc bits out =
     (if bits + 6 \<ge> 8
      then decode_loop cs (w AND (push_bit (bits + 6 - 8) 1 - 1)) (bits + 6 - 8)
             (out @ [char_of (unat (drop_bit (bits + 6 - 8) w AND 0xff))])
      else decode_loop cs (w AND (push_bit (bits + 6) 1 - 1)) (bits + 6) out)"
proof -
  have "i \<noteq> kInvalid" using assms(1) by (simp add: kInvalid_def)
  then show ?thesis using assms by (simp only: decode_loop.simps decode_table(1) Let_def if_False)
qed

lemma decode_word_number:
  fixes n i :: nat
  assumes "n < 64" "i < 64"
  shows "unat (push_bit 6 (word_of_nat n) OR word_of_nat i :: 32 word) = n * 64 + i"
  using shift_in [of "word_of_nat n" i 6] assms acc_word [of n] by simp

lemma decode_0:
  "i < 64 \<Longrightarrow> decode_loop (kAlphabet64 ! i # cs) 0 0 out = decode_loop cs (word_of_nat i) 6 out"
  using decode_word_number [of 0 i] low_bits [of 6 "push_bit 6 0 OR word_of_nat i"]
  by (simp only: decode_word [OF _ refl]) simp

lemma decode_6:
  assumes "n < 64" "i < 64"
  shows "decode_loop (kAlphabet64 ! i # cs) (word_of_nat n) 6 out =
    decode_loop cs (word_of_nat ((n * 64 + i) mod 16)) 4 (out @ [char_of ((n * 64 + i) div 16)])"
proof -
  define w :: "32 word" where "w = push_bit 6 (word_of_nat n) OR word_of_nat i"
  have "unat w = n * 64 + i" unfolding w_def by (rule decode_word_number [OF assms])
  moreover have "(n * 64 + i) div 16 < 256" using assms by linarith
  ultimately show ?thesis unfolding decode_word [OF assms(2) w_def] by (simp add: acc_simps)
qed

lemma decode_4:
  assumes "n < 16" "i < 64"
  shows "decode_loop (kAlphabet64 ! i # cs) (word_of_nat n) 4 out =
    decode_loop cs (word_of_nat ((n * 64 + i) mod 4)) 2 (out @ [char_of ((n * 64 + i) div 4)])"
proof -
  define w :: "32 word" where "w = push_bit 6 (word_of_nat n) OR word_of_nat i"
  have "unat w = n * 64 + i" unfolding w_def using assms by (intro decode_word_number) simp_all
  moreover have "(n * 64 + i) div 4 < 256" using assms by linarith
  ultimately show ?thesis unfolding decode_word [OF assms(2) w_def] by (simp add: acc_simps)
qed

lemma decode_2:
  assumes "n < 4" "i < 64"
  shows "decode_loop (kAlphabet64 ! i # cs) (word_of_nat n) 2 out = decode_loop cs 0 0 (out @ [char_of (n * 64 + i)])"
proof -
  define w :: "32 word" where "w = push_bit 6 (word_of_nat n) OR word_of_nat i"
  have "unat w = n * 64 + i" unfolding w_def using assms by (intro decode_word_number) simp_all
  moreover have "n * 64 + i < 256" using assms by linarith
  ultimately show ?thesis unfolding decode_word [OF assms(2) w_def] by (simp add: acc_simps)
qed

lemma decode_equals: "decode_loop (CHR ''='' # cs) acc bits out = decode_loop cs acc bits out"
  by (simp only: decode_loop.simps decode_table(2) Let_def if_True refl)

section \<open>The standard\<close>

text \<open>RFC 4648: groups of three bytes as four characters, the last group filled up with \<open>=\<close>.\<close>

fun base64_ref :: "string \<Rightarrow> string" where
  "base64_ref [] = []"
| "base64_ref [a] = [kAlphabet64 ! (of_char a div 4), kAlphabet64 ! (of_char a mod 4 * 16), CHR ''='', CHR ''='']"
| "base64_ref [a, b] =
     [kAlphabet64 ! (of_char a div 4), kAlphabet64 ! (of_char a mod 4 * 16 + of_char b div 16),
      kAlphabet64 ! (of_char b mod 16 * 4), CHR ''='']"
| "base64_ref (a # b # c # rest) =
     [kAlphabet64 ! (of_char a div 4), kAlphabet64 ! (of_char a mod 4 * 16 + of_char b div 16),
      kAlphabet64 ! (of_char b mod 16 * 4 + of_char c div 64), kAlphabet64 ! (of_char c mod 64)] @ base64_ref rest"

lemma regroup:
  fixes n c :: nat
  shows "(n * 256 + c) div 16 = n * 16 + c div 16" "(n * 256 + c) mod 16 = c mod 16"
    "(n * 256 + c) div 64 = n * 4 + c div 64" "(n * 256 + c) mod 64 = c mod 64"
proof -
  have "n * 256 + c = (n * 16) * 16 + c" "n * 256 + c = (n * 4) * 64 + c" by simp_all
  then show "(n * 256 + c) div 16 = n * 16 + c div 16" "(n * 256 + c) mod 16 = c mod 16"
    "(n * 256 + c) div 64 = n * 4 + c div 64" "(n * 256 + c) mod 64 = c mod 64"
    by (metis div_mult_self3 zero_neq_numeral, metis mod_mult_self3, metis div_mult_self3 zero_neq_numeral, metis mod_mult_self3)
qed

lemma of_char_parts:
  "of_char a div 4 < (64 :: nat)" "of_char a mod 4 * 16 + of_char b div 16 < (64 :: nat)" "of_char a mod 4 * 16 < (64 :: nat)"
  "of_char b mod 16 * 4 + of_char c div 64 < (64 :: nat)" "of_char b mod 16 * 4 < (64 :: nat)" "of_char c mod 64 < (64 :: nat)"
proof -
  have "(of_char a :: nat) < 256" "(of_char b :: nat) < 256" "(of_char c :: nat) < 256" by simp_all
  moreover have "(of_char a :: nat) mod 4 < 4" "(of_char b :: nat) mod 16 < 16" "(of_char c :: nat) mod 64 < 64" by simp_all
  ultimately show "of_char a div 4 < (64 :: nat)" "of_char a mod 4 * 16 + of_char b div 16 < (64 :: nat)"
    "of_char a mod 4 * 16 < (64 :: nat)" "of_char b mod 16 * 4 + of_char c div 64 < (64 :: nat)"
    "of_char b mod 16 * 4 < (64 :: nat)" "of_char c mod 64 < (64 :: nat)"
    by linarith+
qed

lemma last_sextet:
  "n < 4 \<Longrightarrow> unat (push_bit 4 (word_of_nat n) AND 0x3f :: 32 word) = n * 16"
  "n < 16 \<Longrightarrow> unat (push_bit 2 (word_of_nat n) AND 0x3f :: 32 word) = n * 4"
  using shift_in [of "word_of_nat n" 0 4] shift_in [of "word_of_nat n" 0 2] acc_word [of n]
  by (simp_all add: sextet_of)

lemma of_char_high: "of_char b div 16 < (16 :: nat)" "of_char c div 64 < (4 :: nat)"
proof -
  have "(of_char b :: nat) < 256" "(of_char c :: nat) < 256" by simp_all
  then show "of_char b div 16 < (16 :: nat)" "of_char c div 64 < (4 :: nat)" by linarith+
qed

text \<open>Putting a byte together from its two parts.\<close>

lemma join_high:
  fixes a r :: nat
  assumes "r < 16"
  shows "(a div 4 * 64 + (a mod 4 * 16 + r)) div 16 = a" "(a div 4 * 64 + (a mod 4 * 16 + r)) mod 16 = r"
proof -
  have eq: "a div 4 * 64 + (a mod 4 * 16 + r) = a * 16 + r" using div_mult_mod_eq [of a 4] by linarith
  show "(a div 4 * 64 + (a mod 4 * 16 + r)) div 16 = a" "(a div 4 * 64 + (a mod 4 * 16 + r)) mod 16 = r"
    unfolding eq using assms by simp_all
qed

lemma join_mid:
  fixes b r :: nat
  assumes "r < 4"
  shows "(b div 16 * 64 + (b mod 16 * 4 + r)) div 4 = b" "(b div 16 * 64 + (b mod 16 * 4 + r)) mod 4 = r"
proof -
  have eq: "b div 16 * 64 + (b mod 16 * 4 + r) = b * 4 + r" using div_mult_mod_eq [of b 16] by linarith
  show "(b div 16 * 64 + (b mod 16 * 4 + r)) div 4 = b" "(b div 16 * 64 + (b mod 16 * 4 + r)) mod 4 = r"
    unfolding eq using assms by simp_all
qed

lemma pad_one: "length out mod 4 = 3 \<Longrightarrow> pad_equals out = out @ ''=''"
  using pad_equals.simps [of out] pad_equals.simps [of "out @ ''=''"] by (simp add: mod_Suc)

lemma pad_two: "length out mod 4 = 2 \<Longrightarrow> pad_equals out = out @ ''==''"
  using pad_equals.simps [of out] pad_one [of "out @ ''=''"] by (simp add: mod_Suc)

lemma encode_ref:
  "length out mod 4 = 0 \<Longrightarrow>
   (case encode_loop bytes 0 0 out of (acc, bits, out) \<Rightarrow>
      pad_equals (if bits > 0 then out @ [kAlphabet64 ! unat (push_bit (6 - bits) acc AND 0x3f)] else out)) =
   out @ base64_ref bytes"
proof (induction bytes arbitrary: out rule: base64_ref.induct)
  case 1
  then show ?case by (simp add: pad_equals.simps [of out])
next
  case (2 a)
  have "of_char a mod 4 < (4 :: nat)" by simp
  then show ?case
    using 2 unfolding encode_0 encode_loop.simps(1) by (simp add: last_sextet(1) pad_two mod_Suc)
next
  case (3 a b)
  have "of_char a mod 4 < (4 :: nat)" "of_char b mod 16 < (16 :: nat)" by simp_all
  then show ?case
    using 3 unfolding encode_0 encode_loop.simps(1) by (simp add: encode_2 regroup last_sextet(2) pad_one mod_Suc del: encode_loop.simps(2))
next
  case (4 a b c rest)
  have "of_char a mod 4 < (4 :: nat)" "of_char b mod 16 < (16 :: nat)" by simp_all
  then show ?case
    using 4 unfolding encode_0 by (simp add: encode_2 encode_4 regroup mod_Suc del: encode_loop.simps(2))
qed

lemma decode_one:
  "decode_loop (kAlphabet64 ! (of_char a div 4) # kAlphabet64 ! (of_char a mod 4 * 16) # cs) 0 0 out =
     decode_loop cs 0 4 (out @ [a])"
  using join_high [of 0 "of_char a"]
  unfolding decode_0 [OF of_char_parts(1)] decode_6 [OF of_char_parts(1) of_char_parts(3)] by simp

lemma decode_two:
  "decode_loop (kAlphabet64 ! (of_char a div 4) # kAlphabet64 ! (of_char a mod 4 * 16 + of_char b div 16) # cs) 0 0 out =
     decode_loop cs (word_of_nat (of_char b div 16)) 4 (out @ [a])"
  unfolding decode_0 [OF of_char_parts(1)] decode_6 [OF of_char_parts(1,2)] join_high [OF of_char_high(1)] by simp

lemma decode_ref: "decode_loop (base64_ref bytes) 0 0 out = out @ bytes"
proof (induction bytes arbitrary: out rule: base64_ref.induct)
  case (2 a)
  show ?case unfolding base64_ref.simps decode_one decode_equals by simp
next
  case (3 a b)
  show ?case
    using join_mid [of 0 "of_char b"]
    unfolding base64_ref.simps decode_two decode_4 [OF of_char_high(1) of_char_parts(5)] decode_equals by simp
next
  case (4 a b c rest)
  show ?case
    unfolding base64_ref.simps append.simps decode_two decode_4 [OF of_char_high(1) of_char_parts(4)]
      join_mid [OF of_char_high(2)] decode_2 [OF of_char_high(2) of_char_parts(6)] div_mult_mod_eq 4
    by simp
qed simp

lemma Base64_is_ref: "Base64Encode bytes = base64_ref bytes"
  using encode_ref [of "[]" bytes] by (simp add: Base64Encode_def)

lemma Base64_inverse: "Base64Decode (Base64Encode bytes) = bytes"
  using decode_ref [of bytes "[]"] by (simp add: Base64_is_ref Base64Decode_def)

text \<open>C35: the coder is RFC 4648 base64, and decoding inverts it for every byte string: the identifiers and bodies
  Go sends arrive unchanged.\<close>

theorem Base64_roundtrip: "Base64Encode bytes = base64_ref bytes \<and> Base64Decode (Base64Encode bytes) = bytes"
  by (simp add: Base64_inverse Base64_is_ref [symmetric])

end
