(* ===== verification/Gocache.thy ===== *)
theory Gocache
  imports Process Base64
begin

text \<open>
  The \<open>gocacheprog\<close> mode (\<open>gocache_mode.cc\<close>): Go's line protocol on the standard streams, mapped onto the
  cache.  Standard input is a list of reads of any size.  The lemmas show that a stored output is found
  under its action by any later process, and that a torn body is never stored.
\<close>

section \<open>Lines of input\<close>

text \<open>What is buffered and what the next reads return; an empty read is the end of the input or an error.\<close>

record input =
  in_pending :: string
  in_reads :: "string list"

fun Next_loop :: "string \<Rightarrow> string list \<Rightarrow> string \<Rightarrow> string option \<times> input" where
  "Next_loop pending reads line =
     (case find_str [CHR 0x0A] pending of
        Some newline \<Rightarrow> (Some (line @ take newline pending), \<lparr>in_pending = drop (newline + 1) pending, in_reads = reads\<rparr>)
      | None \<Rightarrow>
          let line = line @ pending in
          (case reads of
             [] \<Rightarrow> (if line = [] then None else Some line, \<lparr>in_pending = [], in_reads = []\<rparr>)
           | x # xs \<Rightarrow>
               if x = [] then (if line = [] then None else Some line, \<lparr>in_pending = [], in_reads = xs\<rparr>)
               else Next_loop x xs line))"

declare Next_loop.simps [simp del]

definition Next :: "input \<Rightarrow> string option \<times> input" where
  "Next i = Next_loop (in_pending i) (in_reads i) []"

definition input_size :: "input \<Rightarrow> nat" where
  "input_size i = length (in_pending i) + length (concat (in_reads i)) + length (in_reads i)"

lemma Next_loop_size:
  "Next_loop pending reads line = (r, i) \<Longrightarrow>
   input_size i + (if r = None \<or> line \<noteq> [] then 0 else 1) \<le> length pending + length (concat reads) + length reads"
proof (induction pending reads line rule: Next_loop.induct)
  case (1 pending reads line)
  show ?case
  proof (cases "find_str [CHR 0x0A] pending")
    case (Some n)
    then show ?thesis
      using "1.prems" find_str_Some [OF Some] by (auto simp: Next_loop.simps [of pending] input_size_def)
  next
    case None
    show ?thesis
    proof (cases reads)
      case Nil
      then show ?thesis
        using "1.prems" None by (auto simp: Next_loop.simps [of pending] input_size_def Let_def Suc_le_eq split: if_splits)
    next
      case (Cons x xs)
      show ?thesis
      proof (cases "x = []")
        case True
        then show ?thesis
          using "1.prems" None Cons by (auto simp: Next_loop.simps [of pending] input_size_def Let_def split: if_splits)
      next
        case False
        have "Next_loop x xs (line @ pending) = (r, i)"
          using "1.prems" None Cons False by (simp add: Next_loop.simps [of pending] Let_def)
        from "1.IH" [OF None refl Cons False this] show ?thesis using Cons by (auto split: if_splits)
      qed
    qed
  qed
qed

lemma Next_size: "Next i = (r, i') \<Longrightarrow> input_size i' + (if r = None then 0 else 1) \<le> input_size i"
  using Next_loop_size [of "in_pending i" "in_reads i" "[]" r i'] by (simp add: Next_def input_size_def)

section \<open>Requests\<close>

text \<open>\<open>find_first_of\<close>.\<close>

definition find_any :: "string \<Rightarrow> char list \<Rightarrow> nat \<Rightarrow> nat" where
  "find_any s cs pos = pos + length (takeWhile (\<lambda>c. c \<notin> set cs) (drop pos s))"

definition JsonField :: "string \<Rightarrow> string \<Rightarrow> string" where
  "JsonField line key =
     (let pattern = [CHR 0x22] @ key @ [CHR 0x22, CHR '':''] in
      case find_str pattern line of
        None \<Rightarrow> []
      | Some p \<Rightarrow>
          let pos = p + length pattern in
          if pos < length line \<and> line ! pos = CHR 0x22
          then case find_from line [CHR 0x22] (pos + 1) of
              None \<Rightarrow> []
            | Some e \<Rightarrow> substr line (pos + 1) (e - pos - 1)
          else substr line pos (find_any line [CHR '','', CHR ''}''] pos - pos))"

definition cast_int64 :: "nat \<Rightarrow> int" where
  "cast_int64 n = (let m = int n mod 2 ^ 64 in if m < 2 ^ 63 then m else m - 2 ^ 64)"

definition JsonInt :: "string \<Rightarrow> string \<Rightarrow> int" where
  "JsonInt line key = cast_int64 (case ParseUint (JsonField line key) 10 of None \<Rightarrow> 0 | Some n \<Rightarrow> n)"

definition int_string :: "int \<Rightarrow> string" where
  "int_string i = (if i < 0 then CHR ''-'' # to_string (nat (- i)) else to_string (nat i))"

record go_session =
  gs_live :: bool
  gs_dir :: string

definition quoted_text :: "string \<Rightarrow> string" where
  "quoted_text s = [CHR 0x22] @ s @ [CHR 0x22]"

definition reply_id :: "int \<Rightarrow> string" where
  "reply_id i = ''{'' @ quoted_text ''ID'' @ '':'' @ int_string i"

definition miss_reply :: "int \<Rightarrow> string" where
  "miss_reply i = reply_id i @ '','' @ quoted_text ''Miss'' @ '':true}'' @ [CHR 0x0A]"

definition hit_reply :: "int \<Rightarrow> string \<Rightarrow> nat \<Rightarrow> string \<Rightarrow> string" where
  "hit_reply i output_id n disk_path =
     reply_id i @ '','' @ quoted_text ''OutputID'' @ '':'' @ quoted_text (Base64Encode output_id) @
     '','' @ quoted_text ''Size'' @ '':'' @ to_string n @
     '','' @ quoted_text ''DiskPath'' @ '':'' @ quoted_text disk_path @ ''}'' @ [CHR 0x0A]"

definition torn_reply :: "int \<Rightarrow> nat \<Rightarrow> int \<Rightarrow> string" where
  "torn_reply i got n =
     reply_id i @ '','' @ quoted_text ''Err'' @ '':'' @
     quoted_text (''body: got '' @ to_string got @ '' of '' @ int_string n @ '' bytes'') @ ''}'' @ [CHR 0x0A]"

definition stored_reply :: "int \<Rightarrow> string \<Rightarrow> string" where
  "stored_reply i disk_path =
     reply_id i @ '','' @ quoted_text ''DiskPath'' @ '':'' @ quoted_text disk_path @ ''}'' @ [CHR 0x0A]"

definition disk_path :: "go_session \<Rightarrow> string \<Rightarrow> string" where
  "disk_path s output_id = path_append (gs_dir s) (HexEncode output_id)"

definition HandleGet :: "sys \<Rightarrow> go_session \<Rightarrow> int \<Rightarrow> string \<Rightarrow> unit run" where
  "HandleGet sys s request_id action = do {
     output_id \<leftarrow> (if gs_live s then cache_get (slot_GoAction action) else give None);
     body \<leftarrow> (case output_id of None \<Rightarrow> give None | Some out \<Rightarrow> cache_get (slot_GoOutput (HexEncode out)));
     (case (output_id, body) of
        (Some out, Some data) \<Rightarrow> do {
          log_outcome sys ''go'' KHit action;
          there \<leftarrow> gets (\<lambda>w. path_exists sys w (disk_path s out));
          (if there then give () else do { write_file sys (disk_path s out) data; give () });
          print_out (hit_reply request_id out (length data) (disk_path s out))
        }
      | _ \<Rightarrow> print_out (miss_reply request_id))
   }"

function body_line :: "input \<Rightarrow> string \<times> input" where
  "body_line i =
     (case Next i of
        (None, i) \<Rightarrow> ([], i)
      | (Some line, i) \<Rightarrow> if line = [] then body_line i else (line, i))"
  by pat_completeness auto
termination
proof (relation "measure input_size", goal_cases)
  case (2 i r i' line)
  then show ?case using Next_size [of i r i'] by simp
qed simp

declare body_line.simps [simp del]

definition decode_body :: "string \<Rightarrow> string" where
  "decode_body line =
     (if length line \<ge> 2 \<and> hd line = CHR 0x22 \<and> last line = CHR 0x22
      then Base64Decode (substr line 1 (length line - 2)) else [])"

definition put_body :: "sys \<Rightarrow> go_session \<Rightarrow> int \<Rightarrow> string \<Rightarrow> string \<Rightarrow> string \<Rightarrow> unit run" where
  "put_body sys s request_id action output_id body = do {
     write_file sys (disk_path s output_id) body;
     (if gs_live s then do {
        cache_put (slot_GoOutput (HexEncode output_id)) body;
        cache_put (slot_GoAction action) output_id
      } else give ());
     log_outcome sys ''go'' KMissStored action;
     print_out (stored_reply request_id (disk_path s output_id))
   }"

definition HandlePut :: "sys \<Rightarrow> go_session \<Rightarrow> input \<Rightarrow> int \<Rightarrow> string \<Rightarrow> string \<Rightarrow> input run" where
  "HandlePut sys s i request_id action req =
     (let output_id = Base64Decode (JsonField req ''OutputID''); body_size = JsonInt req ''BodySize'' in
      if body_size > 0 then
        (case body_line i of (line, i) \<Rightarrow>
           let body = decode_body line in
           if int (length body) \<noteq> body_size
           then do { print_out (torn_reply request_id (length body) body_size); give i }
           else do { put_body sys s request_id action output_id body; give i })
      else do { put_body sys s request_id action output_id []; give i })"

lemma body_line_size: "input_size (snd (body_line i)) \<le> input_size i"
proof (induction i rule: body_line.induct)
  case (1 i)
  obtain r i' where n: "Next i = (r, i')" by fastforce
  show ?case
  proof (cases r)
    case None
    then show ?thesis using Next_size [OF n] n by (simp add: body_line.simps [of i])
  next
    case (Some line)
    then show ?thesis
      using Next_size [OF n] 1 [OF n [symmetric] Some] n by (auto simp: body_line.simps [of i])
  qed
qed

lemma HandlePut_input:
  "fst (run_state (HandlePut sys s i request_id action req) w) =
     (if JsonInt req ''BodySize'' > 0 then snd (body_line i) else i)"
  by (simp add: HandlePut_def Let_def run_simps case_prod_beta del: run_state_bind)

lemma HandlePut_size: "input_size (fst (run_state (HandlePut sys s i request_id action req) w)) \<le> input_size i"
  using body_line_size [of i] by (simp add: HandlePut_input)

definition close_reply :: "int \<Rightarrow> string" where
  "close_reply i = reply_id i @ ''}'' @ [CHR 0x0A]"

function go_loop :: "sys \<Rightarrow> go_session \<Rightarrow> input \<Rightarrow> world \<Rightarrow> world" where
  "go_loop sys s i w =
     (case Next i of
        (None, _) \<Rightarrow> w
      | (Some line, i) \<Rightarrow>
          if line = [] then go_loop sys s i w
          else
            let request_id = JsonInt line ''ID'';
                command = JsonField line ''Command'';
                action = HexEncode (Base64Decode (JsonField line ''ActionID''))
            in if command = ''close'' then snd (run_state (print_out (close_reply request_id)) w)
               else if command = ''get'' then go_loop sys s i (snd (run_state (HandleGet sys s request_id action) w))
               else if command = ''put''
               then go_loop sys s (fst (run_state (HandlePut sys s i request_id action line) w))
                      (snd (run_state (HandlePut sys s i request_id action line) w))
               else go_loop sys s i w)"
  by pat_completeness auto
termination
proof (relation "measure (\<lambda>(_, _, i, _). input_size i)", goal_cases)
  case 1
  show ?case by simp
next
  case (2 sys s i w r i' line)
  then show ?case using Next_size [of i r i'] by simp
next
  case (3 sys s i w r i' line)
  then show ?case using Next_size [of i r i'] by simp
next
  case (4 sys s i w r i' line request_id command action)
  then show ?case
    using Next_size [of i r i'] HandlePut_size [of sys s i' request_id action line w] by (simp add: case_prod_beta)
next
  case (5 sys s i w r i' line)
  then show ?case using Next_size [of i r i'] by simp
qed

declare go_loop.simps [simp del]

definition known_commands :: string where
  "known_commands =
     reply_id 0 @ '','' @ quoted_text ''KnownCommands'' @ '':['' @ quoted_text ''get'' @ '','' @ quoted_text ''put'' @ '','' @
     quoted_text ''close'' @ '']}'' @ [CHR 0x0A]"

definition RunGoCacheProg :: "sys \<Rightarrow> string \<Rightarrow> input \<Rightarrow> int run" where
  "RunGoCacheProg sys socket_path i = do {
     live \<leftarrow> cache_connect sys socket_path;
     tmpdir \<leftarrow> get_env ''TMPDIR'' ''/tmp'';
     dir \<leftarrow> get_env ''GOCACHEPROG_DIR'' (tmpdir @ ''/gocacheprog'');
     print_out known_commands;
     modify (go_loop sys \<lparr>gs_live = live, gs_dir = dir\<rparr> i);
     give 0
   }"

section \<open>Stored outputs\<close>

lemma decode_body_quoted: "decode_body (quoted_text (Base64Encode body)) = body"
  by (simp add: decode_body_def quoted_text_def substr_def Base64_inverse)

lemma HandlePut_world:
  "snd (run_state (HandlePut sys s i request_id action req) w) =
     (let out = Base64Decode (JsonField req ''OutputID''); n = JsonInt req ''BodySize''; line = fst (body_line i);
          body = (if n > 0 then decode_body line else []) in
      if n > 0 \<and> int (length body) \<noteq> n then w\<lparr>w_stdout := w_stdout w @ torn_reply request_id (length body) n\<rparr>
      else snd (run_state (put_body sys s request_id action out body) w))"
  by (simp add: HandlePut_def Let_def run_simps case_prod_beta del: run_state_bind)

lemma put_body_cache:
  assumes "reliable w" "gs_live s"
  shows "w_cache (snd (run_state (put_body sys s request_id action out body) w)) =
    (w_cache w)(slot_GoOutput (HexEncode out) \<mapsto> body, slot_GoAction action \<mapsto> out)"
  using assms by (simp add: put_body_def run_simps Let_def del: run_state_bind fun_upd_apply)

lemma HandlePut_cache:
  assumes "reliable w" "gs_live s" "Base64Decode (JsonField req ''OutputID'') = out"
    and "JsonInt req ''BodySize'' = int (length body)"
    and "body \<noteq> [] \<Longrightarrow> fst (body_line i) = quoted_text (Base64Encode body)"
  shows "w_cache (snd (run_state (HandlePut sys s i request_id action req) w)) =
    (w_cache w)(slot_GoOutput (HexEncode out) \<mapsto> body, slot_GoAction action \<mapsto> out)"
proof (cases "body = []")
  case True
  then show ?thesis using assms put_body_cache [of w s] by (simp add: HandlePut_world Let_def del: fun_upd_apply)
next
  case False
  then show ?thesis
    using assms put_body_cache [of w s] by (simp add: HandlePut_world Let_def decode_body_quoted del: fun_upd_apply)
qed

lemma HandleGet_hit:
  assumes "reliable w" "gs_live s" "w_cache w (slot_GoAction action) = Some out"
    and "w_cache w (slot_GoOutput (HexEncode out)) = Some body" "Env (w_env w) ''JIG_LOG'' [] = []"
    and "\<not> path_exists sys w (disk_path s out)"
    and "fst (WriteFile (sy_write sys (disk_path s out)) (sy_pid sys) (w_files w) (disk_path s out) body)"
  shows "w_stdout (snd (run_state (HandleGet sys s request_id action) w)) =
      w_stdout w @ hit_reply request_id out (length body) (disk_path s out) \<and>
    w_files (snd (run_state (HandleGet sys s request_id action) w)) (disk_path s out) = Some body"
  using assms WriteFile_files [OF prod.collapse [symmetric], of "sy_write sys (disk_path s out)" "sy_pid sys" "w_files w" "disk_path s out" body]
  by (simp add: HandleGet_def run_simps Let_def del: run_state_bind)

text \<open>C14: what one \<open>go\<close> command stored, another one finds.  After a \<open>put\<close> with the identifier and the body encoded as
  Go encodes them, a \<open>get\<close> of the same action in any later process with its own directory answers with that
  identifier, the size and a path, and the file there holds the body.\<close>

theorem go_put_then_get:
  assumes "reliable w" "gs_live s" "JsonField req ''OutputID'' = Base64Encode out"
    and "JsonInt req ''BodySize'' = int (length body)"
    and "body \<noteq> [] \<Longrightarrow> fst (body_line i) = quoted_text (Base64Encode body)"
    and "reliable w2" "gs_live s2" "Env (w_env w2) ''JIG_LOG'' [] = []"
    and "w_cache w2 = w_cache (snd (run_state (HandlePut sys s i request_id action req) w))"
    and "\<not> path_exists sys2 w2 (disk_path s2 out)"
    and "fst (WriteFile (sy_write sys2 (disk_path s2 out)) (sy_pid sys2) (w_files w2) (disk_path s2 out) body)"
  shows "w_stdout (snd (run_state (HandleGet sys2 s2 request_id2 action) w2)) =
      w_stdout w2 @ hit_reply request_id2 out (length body) (disk_path s2 out) \<and>
    w_files (snd (run_state (HandleGet sys2 s2 request_id2 action) w2)) (disk_path s2 out) = Some body"
proof -
  have "Base64Decode (JsonField req ''OutputID'') = out" by (simp add: assms(3) Base64_inverse)
  from HandlePut_cache [OF assms(1,2) this assms(4,5)]
  have "w_cache w2 (slot_GoAction action) = Some out" "w_cache w2 (slot_GoOutput (HexEncode out)) = Some body"
    by (simp_all add: assms(9) slot_defs)
  from HandleGet_hit [OF assms(6,7) this assms(8,10,11)] show ?thesis .
qed

definition demo_put :: string where
  "demo_put = ''{'' @ quoted_text ''ID'' @ '':3,'' @ quoted_text ''Command'' @ '':'' @ quoted_text ''put'' @ '','' @
     quoted_text ''OutputID'' @ '':'' @ quoted_text ''b3V0'' @ '','' @ quoted_text ''BodySize'' @ '':4}''"

definition demo_input :: input where
  "demo_input = \<lparr>in_pending = [], in_reads = [[CHR 0x0A, CHR 0x22] @ ''ZG'', ''F0YQ=='' @ [CHR 0x22, CHR 0x0A]]\<rparr>"

theorem go_put_then_get_witness:
  "w_files (snd (run_state (HandleGet demo_sys \<lparr>gs_live = True, gs_dir = ''/g''\<rparr> 9 ''ac'')
      (demo_world\<lparr>w_cache := w_cache (snd (run_state
         (HandlePut demo_sys \<lparr>gs_live = True, gs_dir = ''/h''\<rparr> demo_input 3 ''ac'' demo_put) demo_world))\<rparr>)))
    (disk_path \<lparr>gs_live = True, gs_dir = ''/g''\<rparr> ''out'') = Some ''data''"
proof -
  let ?w2 = "demo_world\<lparr>w_cache := w_cache (snd (run_state
    (HandlePut demo_sys \<lparr>gs_live = True, gs_dir = ''/h''\<rparr> demo_input 3 ''ac'' demo_put) demo_world))\<rparr>"
  have out: "JsonField demo_put ''OutputID'' = Base64Encode ''out''" unfolding Base64_is_ref by code_simp
  have "JsonField demo_put ''BodySize'' = to_string 4" by code_simp
  then have req: "JsonInt demo_put ''BodySize'' = int (length ''data'')"
    by (simp add: JsonInt_def ParseUint_digits cast_int64_def)
  have line: "fst (body_line demo_input) = quoted_text (Base64Encode ''data'')" unfolding Base64_is_ref by code_simp
  have path: "disk_path \<lparr>gs_live = True, gs_dir = ''/g''\<rparr> ''out'' = ''/g/6f7574''" by code_simp
  have "\<not> path_exists demo_sys ?w2 ''/g/6f7574''" by (simp add: path_exists_def demo_sys_def demo_world_def)
  moreover have "fst (WriteFile (sy_write demo_sys ''/g/6f7574'') (sy_pid demo_sys) (w_files ?w2) ''/g/6f7574'' ''data'')"
    by (simp add: WriteFile_def demo_sys_def Let_def)
  moreover have "reliable demo_world" "reliable ?w2" "Env (w_env ?w2) ''JIG_LOG'' [] = []"
    by (simp_all add: demo_world_def Env_def)
  ultimately show ?thesis
    using go_put_then_get [of demo_world "\<lparr>gs_live = True, gs_dir = ''/h''\<rparr>" demo_put "''out''" "''data''" demo_input ?w2
      "\<lparr>gs_live = True, gs_dir = ''/g''\<rparr>" demo_sys 3 "''ac''" demo_sys 9] out req line path
    by simp
qed

end
