(* ===== verification/Broker.thy ===== *)
theory Broker
  imports Files Base
begin

text \<open>
  The token broker of GHC builds (\<open>jsem/src\<close>): a named semaphore from which every ghc of a build takes a
  token per extra capability, backed by compiler slots of the daemon.  \<open>Tick\<close> is modelled twice over the same
  pieces: as one function, and as a step relation whose semaphore operations interleave with the ghc
  processes.  The invariant of the step relation is that no capability runs without a token of cabal or a slot
  behind it; the function shows what one tick achieves.
\<close>

section \<open>Connections to the daemon\<close>

text \<open>A connection as the kernel presents it: what it accepts, when it is readable, and the chunks it delivers
  (an empty chunk is the end of the stream or an error).\<close>

record conn =
  cn_accepts :: "nat list"
  cn_ready :: "bool list"
  cn_chunks :: "string list"
  cn_sent :: string

definition kSunPath :: nat where
  "kSunPath = 108"

definition Conn_Open :: "(string \<Rightarrow> conn option) \<Rightarrow> string \<Rightarrow> conn option" where
  "Conn_Open connect socket_path =
     (if socket_path = [] \<or> length socket_path \<ge> kSunPath then None else connect socket_path)"

fun Send_loop :: "string \<Rightarrow> nat list \<Rightarrow> string \<Rightarrow> bool \<times> nat list \<times> string" where
  "Send_loop [] accepts sent = (True, accepts, sent)"
| "Send_loop (b # bs) [] sent = (False, [], sent)"
| "Send_loop (b # bs) (a # accepts) sent =
     (if a = 0 then (False, accepts, sent)
      else Send_loop (drop a (b # bs)) accepts (sent @ take a (b # bs)))"

definition Send :: "string \<Rightarrow> conn \<Rightarrow> bool \<times> conn" where
  "Send line c =
     (case Send_loop line (cn_accepts c) (cn_sent c) of
        (ok, accepts, sent) \<Rightarrow> (ok, c\<lparr>cn_accepts := accepts, cn_sent := sent\<rparr>))"

definition Readable :: "conn \<Rightarrow> bool \<times> conn" where
  "Readable c = (case cn_ready c of [] \<Rightarrow> (False, c) | r # rs \<Rightarrow> (r, c\<lparr>cn_ready := rs\<rparr>))"

definition kChunk :: nat where
  "kChunk = 64"

function Ok_loop :: "string list \<Rightarrow> string \<Rightarrow> bool" where
  "Ok_loop chunks reply =
     (if ends_with reply [CHR 0x0A] then reply = ''OK'' @ [CHR 0x0A]
      else case chunks of
        [] \<Rightarrow> False
      | x # xs \<Rightarrow>
          if x = [] then False
          else Ok_loop (if length x \<le> kChunk then xs else drop kChunk x # xs) (reply @ take kChunk x))"
  by pat_completeness auto
termination
  by (relation "measure (\<lambda>(chunks, _). length (concat chunks) + length chunks)") (auto simp: kChunk_def)

declare Ok_loop.simps [simp del]

definition Ok :: "conn \<Rightarrow> bool" where
  "Ok c = Ok_loop (cn_chunks c) []"

definition DaemonUp :: "(string \<Rightarrow> conn option) \<Rightarrow> string \<Rightarrow> bool" where
  "DaemonUp connect socket_path \<longleftrightarrow> Conn_Open connect socket_path \<noteq> None"

text \<open>One call of the source: the order in flight before and after, and the token.\<close>

definition DaemonSource ::
  "(string \<Rightarrow> conn option) \<Rightarrow> string \<Rightarrow> string \<Rightarrow> bool \<Rightarrow> conn option \<Rightarrow> conn option \<times> conn option" where
  "DaemonSource connect socket_path build want order =
     (if \<not> want then (None, None)
      else
        let order =
          (case order of
             Some c \<Rightarrow> Some c
           | None \<Rightarrow>
               (case Conn_Open connect socket_path of
                  None \<Rightarrow> None
                | Some c \<Rightarrow>
                    (case Send (''SLOT '' @ build @ [CHR 0x0A]) c of
                       (False, _) \<Rightarrow> None
                     | (True, c) \<Rightarrow> Some c)))
        in case order of
          None \<Rightarrow> (None, None)
        | Some c \<Rightarrow>
            (case Readable c of
               (False, c) \<Rightarrow> (Some c, None)
             | (True, c) \<Rightarrow> (None, if Ok c then Some c else None)))"

section \<open>The broker\<close>

text \<open>The named semaphores of the machine with their counts.  \<open>Create\<close> removes a stale one first; what it made is
  unlinked again when the object goes, what was opened stays.\<close>

type_synonym semaphores = "string \<Rightarrow> nat option"

definition Sem_Create :: "bool \<Rightarrow> string \<Rightarrow> nat \<Rightarrow> semaphores \<Rightarrow> string option \<times> semaphores" where
  "Sem_Create allowed name tokens sems =
     (if allowed then (Some name, sems(name := Some tokens)) else (None, sems(name := None)))"

definition Sem_Open :: "string \<Rightarrow> semaphores \<Rightarrow> string option" where
  "Sem_Open name sems = (if sems name = None then None else Some [])"

definition Sem_destroy :: "string \<Rightarrow> semaphores \<Rightarrow> semaphores" where
  "Sem_destroy own_name sems = (if own_name \<noteq> [] then sems(own_name := None) else sems)"

lemma Sem_Create_destroy: "name \<noteq> [] \<Longrightarrow> Sem_Create True name n sems = (Some own, sems') \<Longrightarrow>
    Sem_Open name sems' \<noteq> None \<and> Sem_Open name (Sem_destroy own sems') = None"
  by (auto simp: Sem_Create_def Sem_destroy_def Sem_Open_def)

definition TryWait :: "nat \<Rightarrow> bool \<times> nat" where
  "TryWait sem = (if sem > 0 then (True, sem - 1) else (False, sem))"

definition Post :: "nat \<Rightarrow> nat" where
  "Post sem = sem + 1"

function drain :: "nat \<Rightarrow> nat \<Rightarrow> nat \<times> nat" where
  "drain sem idle = (case TryWait sem of (True, sem) \<Rightarrow> drain sem (idle + 1) | (False, sem) \<Rightarrow> (idle, sem))"
  by pat_completeness auto
termination
  by (relation "measure fst") (auto simp: TryWait_def split: if_splits)

declare drain.simps [simp del]

definition tokens_in_use :: "nat \<Rightarrow> nat \<Rightarrow> nat" where
  "tokens_in_use held idle = held - min held idle"

definition keep_held :: "nat \<Rightarrow> 'tok list \<Rightarrow> 'tok list" where
  "keep_held in_use held = take (min (length held) (in_use + 1)) held"

definition has_spare :: "nat \<Rightarrow> 'tok list \<Rightarrow> bool" where
  "has_spare in_use held \<longleftrightarrow> length held = in_use + 1"

record 'tok broker =
  bk_sem :: nat
  bk_held :: "'tok list"

definition Tick :: "(bool \<Rightarrow> 'src \<Rightarrow> 'src \<times> 'tok option) \<Rightarrow> 'tok broker \<times> 'src \<Rightarrow> 'tok broker \<times> 'src" where
  "Tick source = (\<lambda>(b, src).
     case drain (bk_sem b) 0 of (idle, sem) \<Rightarrow>
       let in_use = tokens_in_use (length (bk_held b)) idle;
           held = keep_held in_use (bk_held b)
       in case source (\<not> has_spare in_use held) src of (src, token) \<Rightarrow>
         let held = (case token of None \<Rightarrow> held | Some t \<Rightarrow> held @ [t]);
             sem = (if length held > in_use then Post sem else sem)
         in (\<lparr>bk_sem = sem, bk_held = held\<rparr>, src))"

fun close_loop :: "nat \<Rightarrow> nat \<Rightarrow> nat" where
  "close_loop 0 sem = sem"
| "close_loop (Suc n) sem = (case TryWait sem of (True, sem) \<Rightarrow> close_loop n sem | (False, sem) \<Rightarrow> sem)"

definition Broker_close :: "'tok broker \<Rightarrow> 'tok broker" where
  "Broker_close b = \<lparr>bk_sem = close_loop (length (bk_held b)) (bk_sem b), bk_held = []\<rparr>"

lemma drain_all: "drain sem idle = (idle + sem, 0)"
  by (induction sem arbitrary: idle) (simp_all add: drain.simps [of "Suc _"] drain.simps [of 0] TryWait_def)

lemma close_loop_min: "close_loop n sem = sem - min n sem"
proof (induction n arbitrary: sem)
  case (Suc n)
  then show ?case by (cases sem) (simp_all add: TryWait_def)
qed simp

section \<open>Interleaving with the ghc processes\<close>

text \<open>Where the broker is between two operations of the semaphore; the numbers are the local variables
  \<open>idle\<close> and \<open>in_use\<close>.\<close>

datatype broker_pc = Resting | Draining nat | Ordering nat | Posting nat | Closing nat | Closed

record 'tok broker_system = "'tok broker" +
  bs_running :: nat
  bs_pc :: broker_pc

inductive broker_step :: "'tok broker_system \<Rightarrow> 'tok broker_system \<Rightarrow> bool" where
  tick: "bs_pc s = Resting \<Longrightarrow> broker_step s (s\<lparr>bs_pc := Draining 0\<rparr>)"
| wait: "bs_pc s = Draining idle \<Longrightarrow> TryWait (bk_sem s) = (True, sem) \<Longrightarrow>
    broker_step s (s\<lparr>bk_sem := sem, bs_pc := Draining (idle + 1)\<rparr>)"
| drained: "bs_pc s = Draining idle \<Longrightarrow> TryWait (bk_sem s) = (False, sem) \<Longrightarrow>
    in_use = tokens_in_use (length (bk_held s)) idle \<Longrightarrow>
    broker_step s (s\<lparr>bk_held := keep_held in_use (bk_held s), bs_pc := Ordering in_use\<rparr>)"
| granted: "bs_pc s = Ordering in_use \<Longrightarrow> \<not> has_spare in_use (bk_held s) \<Longrightarrow>
    broker_step s (s\<lparr>bk_held := bk_held s @ [t], bs_pc := Posting in_use\<rparr>)"
| ungranted: "bs_pc s = Ordering in_use \<Longrightarrow> broker_step s (s\<lparr>bs_pc := Posting in_use\<rparr>)"
| post: "bs_pc s = Posting in_use \<Longrightarrow>
    broker_step s (s\<lparr>bk_sem := (if length (bk_held s) > in_use then Post (bk_sem s) else bk_sem s), bs_pc := Resting\<rparr>)"
| close: "bs_pc s = Resting \<Longrightarrow> broker_step s (s\<lparr>bs_pc := Closing 0\<rparr>)"
| take_back: "bs_pc s = Closing i \<Longrightarrow> i < length (bk_held s) \<Longrightarrow> TryWait (bk_sem s) = (True, sem) \<Longrightarrow>
    broker_step s (s\<lparr>bk_sem := sem, bs_pc := Closing (i + 1)\<rparr>)"
| closed: "bs_pc s = Closing i \<Longrightarrow> i = length (bk_held s) \<or> TryWait (bk_sem s) = (False, sem) \<Longrightarrow>
    broker_step s (s\<lparr>bk_held := [], bs_pc := Closed\<rparr>)"

text \<open>A ghc takes a token for one more capability, or gives one back.\<close>

inductive ghc_step :: "'tok broker_system \<Rightarrow> 'tok broker_system \<Rightarrow> bool" where
  acquire: "TryWait (bk_sem s) = (True, sem) \<Longrightarrow> ghc_step s (s\<lparr>bk_sem := sem, bs_running := bs_running s + 1\<rparr>)"
| release: "bs_running s > 0 \<Longrightarrow> ghc_step s (s\<lparr>bk_sem := Post (bk_sem s), bs_running := bs_running s - 1\<rparr>)"

definition system_init :: "nat \<Rightarrow> 'tok broker_system" where
  "system_init created = \<lparr>bk_sem = created, bk_held = [], bs_running = 0, bs_pc = Resting\<rparr>"

inductive system_reachable :: "nat \<Rightarrow> 'tok broker_system \<Rightarrow> bool" for created where
  start: "system_reachable created (system_init created)"
| broker: "system_reachable created s \<Longrightarrow> broker_step s s' \<Longrightarrow> system_reachable created s'"
| ghc: "system_reachable created s \<Longrightarrow> ghc_step s s' \<Longrightarrow> system_reachable created s'"

text \<open>The tokens in the semaphore, with the ghcs and in the hands of the broker are backed by the tokens cabal
  created and the slots held; after the drain, by the slots in use.\<close>

definition backed :: "nat \<Rightarrow> 'tok broker_system \<Rightarrow> bool" where
  "backed created s \<longleftrightarrow>
     (let n = bk_sem s + bs_running s; held = length (bk_held s) in
      case bs_pc s of
        Resting \<Rightarrow> n \<le> created + held
      | Draining idle \<Rightarrow> n + idle \<le> created + held
      | Ordering in_use \<Rightarrow> n \<le> created + in_use \<and> in_use \<le> held \<and> held \<le> in_use + 1
      | Posting in_use \<Rightarrow> n \<le> created + in_use \<and> in_use \<le> held \<and> held \<le> in_use + 1
      | Closing i \<Rightarrow> n + i \<le> created + held
      | Closed \<Rightarrow> True)"

lemma TryWait_cases:
  "TryWait sem = (True, sem') \<longleftrightarrow> sem = Suc sem'" "TryWait sem = (False, sem') \<longleftrightarrow> sem = 0 \<and> sem' = 0"
  by (auto simp: TryWait_def)

lemma backed_broker_step: "broker_step s s' \<Longrightarrow> backed created s \<Longrightarrow> backed created s'"
  by (induction rule: broker_step.induct)
    (auto simp: backed_def Let_def TryWait_cases Post_def keep_held_def tokens_in_use_def has_spare_def)

lemma backed_ghc_step: "ghc_step s s' \<Longrightarrow> backed created s \<Longrightarrow> backed created s'"
  by (induction rule: ghc_step.induct) (auto simp: backed_def Let_def TryWait_cases Post_def split: broker_pc.splits)

lemma backed_reachable: "system_reachable created s \<Longrightarrow> backed created s"
  by (induction rule: system_reachable.induct)
    (auto intro: backed_broker_step backed_ghc_step simp: system_init_def, simp add: backed_def)

text \<open>C12: no over-admission.  However the operations of the broker on the semaphore interleave with those of the
  ghcs, until the broker is gone the tokens on offer and the capabilities that run are never more than the
  tokens cabal created and the slots the broker holds.\<close>

theorem broker_no_over_admission:
  assumes "system_reachable created s" "bs_pc s \<noteq> Closed"
  shows "bk_sem s + bs_running s \<le> created + length (bk_held s)"
  using backed_reachable [OF assms(1)] assms(2) by (auto simp: backed_def Let_def split: broker_pc.splits)

theorem broker_no_over_admission_witness:
  "bk_sem \<lparr>bk_sem = 0, bk_held = [], bs_running = 1, bs_pc = Draining 0\<rparr> + 1 \<le> 1 + length ([] :: unit list)"
proof -
  have "broker_step (system_init 1 :: unit broker_system) \<lparr>bk_sem = 1, bk_held = [], bs_running = 0, bs_pc = Draining 0\<rparr>"
    using broker_step.tick [of "system_init 1"] by (simp add: system_init_def)
  moreover have "ghc_step \<lparr>bk_sem = 1, bk_held = [], bs_running = 0, bs_pc = Draining 0\<rparr>
    (\<lparr>bk_sem = 0, bk_held = [], bs_running = 1, bs_pc = Draining 0\<rparr> :: unit broker_system)"
    using ghc_step.acquire [of "\<lparr>bk_sem = 1, bk_held = [], bs_running = 0, bs_pc = Draining 0\<rparr> :: unit broker_system" 0]
    by (simp add: TryWait_def)
  ultimately have "system_reachable 1 (\<lparr>bk_sem = 0, bk_held = [], bs_running = 1, bs_pc = Draining 0\<rparr> :: unit broker_system)"
    using system_reachable.start system_reachable.broker system_reachable.ghc by metis
  from broker_no_over_admission [OF this] show ?thesis by simp
qed

text \<open>When the ghcs are done, the tokens the broker leaves behind are those of cabal.\<close>

lemma Broker_close_returns:
  assumes "system_reachable created s" "bs_pc s = Resting" "bs_running s = 0"
  shows "bk_sem (Broker_close \<lparr>bk_sem = bk_sem s, bk_held = bk_held s\<rparr>) \<le> created"
  using backed_reachable [OF assms(1)] assms(2,3) by (auto simp: backed_def Broker_close_def close_loop_min)

section \<open>One tick\<close>

abbreviation system :: "nat \<Rightarrow> 'tok list \<Rightarrow> nat \<Rightarrow> broker_pc \<Rightarrow> 'tok broker_system" where
  "system sem held running pc \<equiv> \<lparr>bk_sem = sem, bk_held = held, bs_running = running, bs_pc = pc\<rparr>"

lemma drain_steps: "broker_step\<^sup>*\<^sup>* (system n held r (Draining idle)) (system 0 held r (Draining (idle + n)))"
proof (induction n arbitrary: idle)
  case (Suc n)
  have "broker_step (system (Suc n) held r (Draining idle)) (system n held r (Draining (idle + 1)))"
    using broker_step.wait [of "system (Suc n) held r (Draining idle)" idle n] by (simp add: TryWait_cases)
  with Suc [of "idle + 1"] show ?case by (simp add: converse_rtranclp_into_rtranclp)
qed simp

text \<open>A source of tokens gives none when it is told to cancel.\<close>

locale token_source =
  fixes source :: "bool \<Rightarrow> 'src \<Rightarrow> 'src \<times> 'tok option"
  assumes cancel: "snd (source False src) = None"
begin

definition ordered :: "'tok list \<Rightarrow> 'src \<Rightarrow> nat \<Rightarrow> 'tok list" where
  "ordered held src in_use =
     (case snd (source (\<not> has_spare in_use held) src) of None \<Rightarrow> held | Some t \<Rightarrow> held @ [t])"

lemma Tick_eq:
  assumes "u = tokens_in_use (length (bk_held b)) (bk_sem b)" "h = ordered (keep_held u (bk_held b)) src u"
  shows "fst (Tick source (b, src)) = \<lparr>bk_sem = (if length h > u then 1 else 0), bk_held = h\<rparr>"
  unfolding assms by (simp add: Tick_def drain_all ordered_def Let_def Post_def case_prod_beta split: option.split)

lemma order_step:
  "broker_step (system sem held r (Ordering in_use)) (system sem (ordered held src in_use) r (Posting in_use))"
proof (cases "snd (source (\<not> has_spare in_use held) src)")
  case None
  then show ?thesis
    using broker_step.ungranted [of "system sem held r (Ordering in_use)" in_use] by (simp add: ordered_def)
next
  case (Some t)
  then have "\<not> has_spare in_use held" using cancel [of src] by auto
  then show ?thesis
    using Some broker_step.granted [of "system sem held r (Ordering in_use)" in_use t] by (simp add: ordered_def)
qed

lemma Tick_run:
  assumes "Tick source (\<lparr>bk_sem = n, bk_held = held\<rparr>, src) = (b, src')"
  shows "broker_step\<^sup>*\<^sup>* (system n held r Resting) (system (bk_sem b) (bk_held b) r Resting)"
proof -
  define u where "u = tokens_in_use (length held) n"
  define h where "h = ordered (keep_held u held) src u"
  have b: "bk_sem b = (if length h > u then 1 else 0)" "bk_held b = h"
    using Tick_eq [of u "\<lparr>bk_sem = n, bk_held = held\<rparr>" h src] assms by (simp_all add: u_def h_def)
  have "broker_step (system n held r Resting) (system n held r (Draining 0))"
    using broker_step.tick [of "system n held r Resting"] by simp
  also have "broker_step\<^sup>*\<^sup>* (system n held r (Draining 0)) (system 0 held r (Draining n))"
    using drain_steps [of n held r 0] by simp
  also have "broker_step (system 0 held r (Draining n)) (system 0 (keep_held u held) r (Ordering u))"
    using broker_step.drained [of "system 0 held r (Draining n)" n 0 u] by (simp add: TryWait_def u_def)
  also have "broker_step (system 0 (keep_held u held) r (Ordering u)) (system 0 h r (Posting u))"
    unfolding h_def by (rule order_step)
  also have "broker_step (system 0 h r (Posting u)) (system (bk_sem b) (bk_held b) r Resting)"
    using broker_step.post [of "system 0 h r (Posting u)" u] by (cases "u < length h") (simp_all add: b Post_def)
  finally show ?thesis by simp
qed

text \<open>What is held after a tick: the slots in use, and one more unless an order is not granted.\<close>

lemma Tick_spare:
  assumes "snd (source True src) \<noteq> None"
  shows "bk_sem (fst (Tick source (b, src))) = 1 \<and> length (bk_held (fst (Tick source (b, src)))) = tokens_in_use (length (bk_held b)) (bk_sem b) + 1"
proof -
  define u where "u = tokens_in_use (length (bk_held b)) (bk_sem b)"
  define h where "h = keep_held u (bk_held b)"
  have "length h = u \<or> has_spare u h" by (auto simp: h_def u_def keep_held_def tokens_in_use_def has_spare_def)
  then have "length (ordered h src u) = u + 1"
    using cancel [of src] assms
    by (cases "has_spare u h") (auto simp: ordered_def has_spare_def)
  then show ?thesis using Tick_eq [OF u_def refl, of src] by (simp add: h_def flip: u_def)
qed

end

interpretation daemon_source: token_source "DaemonSource connect socket_path build"
  by unfold_locales (simp add: DaemonSource_def)

text \<open>C36: one tick is an uninterrupted run of the steps above, so what holds in every interleaving holds for the
  program: \<open>Tick\<close> refines the step relation.\<close>

theorem Tick_refines:
  assumes "Tick (DaemonSource connect socket_path build) (\<lparr>bk_sem = n, bk_held = held\<rparr>, order) = (b, order')"
  shows "broker_step\<^sup>*\<^sup>* (system n held running Resting) (system (bk_sem b) (bk_held b) running Resting)"
  using assms by (rule daemon_source.Tick_run)

definition demo_slot :: conn where
  "demo_slot = \<lparr>cn_accepts = [4, 10], cn_ready = [True], cn_chunks = [''O'', ''K'' @ [CHR 0x0A]], cn_sent = []\<rparr>"

theorem Tick_refines_witness:
  "broker_step\<^sup>*\<^sup>* (system 3 [demo_slot] 0 Resting) (system 1 [demo_slot] 0 Resting)"
  using Tick_refines [of "\<lambda>_. None" "''/s''" "''b''" 3 "[demo_slot]" None "\<lparr>bk_sem = 1, bk_held = [demo_slot]\<rparr>" None 0]
  by (simp add: Tick_def drain_all tokens_in_use_def keep_held_def has_spare_def DaemonSource_def Post_def)

section \<open>The daemon grants an order\<close>

definition takes :: "string \<Rightarrow> conn \<Rightarrow> bool" where
  "takes line c \<longleftrightarrow> list_all (\<lambda>a. a \<noteq> 0) (cn_accepts c) \<and> length line \<le> sum_list (cn_accepts c)"

text \<open>The answer has arrived, in pieces of any size.\<close>

definition answered :: "conn \<Rightarrow> bool" where
  "answered c \<longleftrightarrow> cn_ready c \<noteq> [] \<and> hd (cn_ready c) \<and> [] \<notin> set (cn_chunks c) \<and> concat (cn_chunks c) = ''OK'' @ [CHR 0x0A]"

lemma Send_loop_all:
  "list_all (\<lambda>a. a \<noteq> 0) accepts \<Longrightarrow> length line \<le> sum_list accepts \<Longrightarrow>
   \<exists>accepts'. Send_loop line accepts sent = (True, accepts', sent @ line)"
proof (induction line accepts sent rule: Send_loop.induct)
  case (3 b bs a accepts sent)
  then have "a \<noteq> 0" "length (drop a (b # bs)) \<le> sum_list accepts" by auto
  with 3 have "\<exists>accepts'. Send_loop (drop a (b # bs)) accepts (sent @ take a (b # bs)) =
    (True, accepts', (sent @ take a (b # bs)) @ drop a (b # bs))" by auto
  then show ?case using \<open>a \<noteq> 0\<close> by simp
qed auto

lemma Ok_loop_pieces:
  "[] \<notin> set chunks \<Longrightarrow> reply @ concat chunks = ''OK'' @ [CHR 0x0A] \<Longrightarrow> Ok_loop chunks reply"
proof (induction chunks arbitrary: reply)
  case Nil
  then show ?case by (simp add: Ok_loop.simps [of "[]"] suffix_def)
next
  case (Cons x xs)
  have "length (reply @ x) \<le> 3" using arg_cong [OF Cons.prems(2), of length] by simp
  then have "length x \<le> kChunk" by (simp add: kChunk_def)
  moreover have "\<not> ends_with reply [CHR 0x0A]"
  proof
    assume "ends_with reply [CHR 0x0A]"
    then obtain r where "reply = r @ [CHR 0x0A]" by (auto simp: suffix_def)
    then have "r @ [CHR 0x0A] @ x @ concat xs = ''OK'' @ [CHR 0x0A]" using Cons.prems(2) by simp
    then show False using Cons.prems(1) by (auto simp: append_eq_Cons_conv)
  qed
  moreover have "x \<noteq> []" using Cons.prems(1) by auto
  ultimately show ?case
    using Cons.IH [of "reply @ x"] Cons.prems by (simp add: Ok_loop.simps [of "x # xs"])
qed

lemma Ok_answered: "answered c \<Longrightarrow> Ok (snd (Readable c)) \<and> fst (Readable c)"
  by (cases "cn_ready c") (auto simp: answered_def Ok_def Readable_def intro: Ok_loop_pieces)

lemma DaemonSource_pending: "answered c \<Longrightarrow> snd (DaemonSource connect socket_path build True (Some c)) \<noteq> None"
  using Ok_answered [of c] by (auto simp: DaemonSource_def split: prod.split bool.split)

lemma DaemonSource_fresh:
  assumes "DaemonUp connect socket_path" "\<And>c. connect socket_path = Some c \<Longrightarrow> takes (''SLOT '' @ build @ [CHR 0x0A]) c \<and> answered c"
  shows "snd (DaemonSource connect socket_path build True None) \<noteq> None"
proof -
  from assms(1) obtain c where c: "connect socket_path = Some c" "Conn_Open connect socket_path = Some c"
    by (auto simp: DaemonUp_def Conn_Open_def split: if_splits)
  obtain accepts sent where "Send_loop (''SLOT '' @ build @ [CHR 0x0A]) (cn_accepts c) (cn_sent c) = (True, accepts, sent)"
    using Send_loop_all assms(2) [OF c(1)] unfolding takes_def by blast
  then have "Send (''SLOT '' @ build @ [CHR 0x0A]) c = (True, c\<lparr>cn_accepts := accepts, cn_sent := sent\<rparr>)"
    by (simp add: Send_def)
  moreover have "answered (c\<lparr>cn_accepts := accepts, cn_sent := sent\<rparr>)" using assms(2) [OF c(1)] by (simp add: answered_def)
  ultimately show ?thesis using c(2) DaemonSource_pending by (simp add: DaemonSource_def)
qed

text \<open>C13: a waiting ghc is served.  If the daemon answers the order in flight, or an order placed now, the tick ends
  with exactly one token on offer, whatever was taken or given back before, and with one slot more than the
  slots in use: a slot that was idle beyond that one is returned.\<close>

theorem Tick_offers_one:
  assumes "order = Some c \<and> answered c \<or>
    order = None \<and> DaemonUp connect socket_path \<and>
      (\<forall>c. connect socket_path = Some c \<longrightarrow> takes (''SLOT '' @ build @ [CHR 0x0A]) c \<and> answered c)"
  shows "bk_sem (fst (Tick (DaemonSource connect socket_path build) (b, order))) = 1 \<and>
    length (bk_held (fst (Tick (DaemonSource connect socket_path build) (b, order)))) =
      tokens_in_use (length (bk_held b)) (bk_sem b) + 1"
  using assms DaemonSource_pending DaemonSource_fresh by (intro daemon_source.Tick_spare) blast

theorem Tick_offers_one_witness:
  "bk_sem (fst (Tick (DaemonSource (\<lambda>_. Some demo_slot) ''/s'' ''b'') (\<lparr>bk_sem = 0, bk_held = [demo_slot]\<rparr>, None))) = 1"
  using Tick_offers_one [of None demo_slot "\<lambda>_. Some demo_slot" "''/s''" "''b''" "\<lparr>bk_sem = 0, bk_held = [demo_slot]\<rparr>"]
  by (simp add: demo_slot_def DaemonUp_def Conn_Open_def kSunPath_def takes_def answered_def)

section \<open>The program\<close>

fun JsemName :: "string list \<Rightarrow> string" where
  "JsemName [] = []"
| "JsemName (arg # args) =
     (if \<not> starts_with arg ''-jsem'' then JsemName args
      else let name = dropWhile (\<lambda>c. c = CHR '' '') (drop 5 arg) in
        if name \<noteq> [] then name
        else case args of next # _ \<Rightarrow> next | [] \<Rightarrow> JsemName args)"

definition lock_file :: "string \<Rightarrow> string \<Rightarrow> string" where
  "lock_file dir name =
     dir @ ''/.jsem'' @ map (\<lambda>c. if c = CHR 0x2F then CHR ''_'' else c) name @ ''.lock''"

text \<open>The machine: which locks can be taken, which semaphores can be opened, and how \<open>fork\<close> and \<open>exec\<close> end.\<close>

record jsem_host =
  jh_env :: env
  jh_connect :: "string \<Rightarrow> conn option"
  jh_open :: "string \<Rightarrow> bool"
  jh_flock :: "string \<Rightarrow> bool"
  jh_sem :: "string \<Rightarrow> bool"
  jh_errno :: nat

definition TakeLock :: "jsem_host \<Rightarrow> string \<Rightarrow> string \<Rightarrow> bool" where
  "TakeLock h dir name \<longleftrightarrow> jh_open h (lock_file dir name) \<and> jh_flock h (lock_file dir name)"

datatype jsem_effect = Complain string | ForkBroker string string | Exec "string list"

definition broker_name :: "string list \<Rightarrow> string" where
  "broker_name args =
     (let name = JsemName (drop 2 args) in
      if name \<noteq> [] \<and> \<not> starts_with name [CHR 0x2F] then CHR 0x2F # name else name)"

definition start_broker :: "jsem_host \<Rightarrow> string \<Rightarrow> string \<Rightarrow> jsem_effect list" where
  "start_broker h socket_path name =
     (if name \<noteq> [] \<and> DaemonUp (jh_connect h) socket_path \<and>
         TakeLock h (Env (jh_env h) ''NIX_BUILD_TOP'' (Env (jh_env h) ''TMPDIR'' ''/tmp'')) name
      then if jh_sem h name then [ForkBroker name socket_path]
        else [Complain (''jsem: cannot open semaphore '' @ name @ '': errno '' @ to_string (jh_errno h) @ [CHR 0x0A])]
      else [])"

definition kExecFailed :: int where
  "kExecFailed = 127"

text \<open>What the process does, and its status if the program cannot be executed.\<close>

definition jsem_main :: "string \<Rightarrow> jsem_host \<Rightarrow> string list \<Rightarrow> jsem_effect list \<times> int" where
  "jsem_main default_sock h args =
     (if length args < 2 then ([Complain (''usage: jsem <ghc> [args...]'' @ [CHR 0x0A])], 2)
      else (start_broker h (Env (jh_env h) ''JIG_SOCK'' default_sock) (broker_name args) @
              [Exec (tl args), Complain (''jsem: exec '' @ args ! 1 @ '': errno '' @ to_string (jh_errno h) @ [CHR 0x0A])],
            kExecFailed))"

text \<open>The broker process looks before every \<open>kAliveEvery\<close> ticks whether cabal still has the semaphore, and ends at
  the first look that fails.  \<open>None\<close>: it still runs after the given looks.\<close>

definition kAliveEvery :: nat where
  "kAliveEvery = 50"

fun RunBroker ::
  "(bool \<Rightarrow> 'src \<Rightarrow> 'src \<times> 'tok option) \<Rightarrow> bool list \<Rightarrow> 'tok broker \<times> 'src \<Rightarrow> 'tok broker option" where
  "RunBroker source [] b = None"
| "RunBroker source (linked # looks) b =
     (if linked then RunBroker source looks ((Tick source ^^ kAliveEvery) b) else Some (Broker_close (fst b)))"

lemma RunBroker_returns_slots: "RunBroker source looks b = Some b' \<Longrightarrow> bk_held b' = []"
  by (induction source looks b rule: RunBroker.induct) (auto simp: Broker_close_def split: if_splits)


lemma jsem_main_one_broker:
  "length (filter (\<lambda>e. \<exists>n s. e = ForkBroker n s) (fst (jsem_main d h args))) \<le> 1"
  by (simp add: jsem_main_def start_broker_def)

end
