(* ===== verification/Cc_Mode.thy ===== *)
theory Cc_Mode
  imports Process Driver "HOL-Library.List_Lexorder"
begin

text \<open>
  \<open>cc_mode.cc\<close>: the compiler wrapper.  A command line is classified, its request key is computed, a stored
  result is looked up and replayed, and otherwise the compiler runs while its inputs are observed and the
  result is stored.  Paths are strings; the whole mode is a computation on the state of theory \<open>World\<close>.
  The lemmas at the end compose the parts: what was stored is what a later run replays.
\<close>

section \<open>Classifying words\<close>

record invocation =
  in_args :: "string list"
  in_key_args :: "string list"
  in_source :: string
  in_inputs :: "string list"
  in_pch :: "string list"
  in_output :: string
  in_compile_only :: bool
  in_to_stdout :: bool
  in_link_one :: bool
  in_link :: bool
  in_cacheable :: bool
  in_query :: bool
  in_wants_depfile :: bool
  in_depfile :: string
  in_depfile_target :: string

definition empty_invocation :: invocation where
  "empty_invocation = \<lparr>in_args = [], in_key_args = [], in_source = [], in_inputs = [], in_pch = [], in_output = [],
     in_compile_only = False, in_to_stdout = False, in_link_one = False, in_link = False, in_cacheable = True,
     in_query = False, in_wants_depfile = False, in_depfile = [], in_depfile_target = []\<rparr>"

definition HasSuffix :: "string \<Rightarrow> string list \<Rightarrow> bool" where
  "HasSuffix arg sufs = list_ex (\<lambda>suf. length arg > length suf \<and> ends_with arg suf) sufs"

definition IsAssembly :: "string \<Rightarrow> bool" where
  "IsAssembly path = HasSuffix path [''.S'', ''.s'', ''.sx'']"

definition IsPlainAssembly :: "string \<Rightarrow> bool" where
  "IsPlainAssembly path = HasSuffix path [''.s'']"

definition IsSourceFile :: "string \<Rightarrow> bool" where
  "IsSourceFile arg \<longleftrightarrow> \<not> starts_with arg ''-'' \<and>
     HasSuffix arg [''.c'', ''.cc'', ''.cpp'', ''.cxx'', ''.c++'', ''.C'', ''.S'', ''.s'', ''.sx'', ''.m'']"

definition IsObjectInput :: "string \<Rightarrow> bool" where
  "IsObjectInput arg \<longleftrightarrow> \<not> starts_with arg ''-'' \<and>
     (HasSuffix arg [''.o'', ''.os'', ''.lo'', ''.a'', ''.so'', ''.obj''] \<or> contains arg ''.so.'')"

definition HasLinkerSideOutput :: "string \<Rightarrow> bool" where
  "HasLinkerSideOutput arg \<longleftrightarrow> (starts_with arg ''-Wl,'' \<or> starts_with arg ''-Xlinker'') \<and>
     (list_ex (contains arg) [''-Map'', ''--print-map'', '',-M,'', ''--dependency-file'', ''--out-implib'',
        ''--trace'', '',-t,'', ''--verbose'', ''--print-gc-sections'', ''--stats''] \<or>
      ends_with arg '',-M'' \<or> ends_with arg '',-t'')"

definition IsNoOutputOption :: "string \<Rightarrow> bool" where
  "IsNoOutputOption arg \<longleftrightarrow>
     arg \<in> set [''-M'', ''-MM'', ''-'', ''-v'', ''-V'', ''--version'', ''-###'', ''-fsyntax-only''] \<or>
     starts_with arg ''-print'' \<or> starts_with arg ''--print'' \<or> starts_with arg ''-dump''"

section \<open>Parsing the command line\<close>

text \<open>The two option takers get the argument and the words after it, and return the words left.\<close>

definition wants_depfile :: "invocation \<Rightarrow> invocation" where
  "wants_depfile invoc = invoc\<lparr>in_wants_depfile := True\<rparr>"

definition TakeDepfileOption :: "string \<Rightarrow> string list \<Rightarrow> invocation \<Rightarrow> (string list \<times> invocation) option" where
  "TakeDepfileOption arg rest invoc =
     (if arg = ''-MF'' \<and> rest \<noteq> [] then Some (tl rest, wants_depfile (invoc\<lparr>in_depfile := hd rest\<rparr>))
      else if (arg = ''-MT'' \<or> arg = ''-MQ'') \<and> rest \<noteq> []
      then Some (tl rest, wants_depfile (invoc\<lparr>in_depfile_target := hd rest\<rparr>))
      else if starts_with arg ''-Wp,-MD,'' \<or> starts_with arg ''-Wp,-MMD,''
      then Some (rest, wants_depfile (invoc\<lparr>in_depfile :=
             (case find_from arg '','' 5 of Some comma \<Rightarrow> drop (comma + 1) arg | None \<Rightarrow> arg)\<rparr>))
      else if arg \<noteq> ''-MD'' \<and> arg \<noteq> ''-MMD'' \<and> arg \<noteq> ''-MP'' then None
      else Some (rest, wants_depfile invoc))"

definition TakePchOption :: "string \<Rightarrow> string list \<Rightarrow> invocation \<Rightarrow> (string list \<times> invocation) option" where
  "TakePchOption arg rest invoc =
     (if arg \<noteq> ''-include-pch'' then None
      else let more = takeWhile (\<lambda>a. a = ''-Xclang'') rest;
               rest = dropWhile (\<lambda>a. a = ''-Xclang'') rest;
               invoc = invoc\<lparr>in_key_args := in_key_args invoc @ [arg] @ more\<rparr>
           in if rest = [] then Some (rest, invoc)
              else Some (tl rest, invoc\<lparr>in_key_args := in_key_args invoc @ [hd rest], in_pch := in_pch invoc @ [hd rest]\<rparr>))"

record parsing =
  pa_inv :: invocation
  pa_objects :: bool
  pa_sources :: nat
  pa_stop :: "char option"

text \<open>One word that is no depfile option.\<close>

definition parse_word :: "string \<Rightarrow> string list \<Rightarrow> parsing \<Rightarrow> string list \<times> parsing" where
  "parse_word arg rest p =
     (let invoc = pa_inv p in
      if arg = ''-c'' \<or> arg = ''-S'' \<or> arg = ''-E'' then
        (rest, p\<lparr>pa_stop := Some (arg ! 1),
                pa_inv := invoc\<lparr>in_compile_only := True, in_key_args := in_key_args invoc @ [arg]\<rparr>\<rparr>)
      else if arg = ''-o'' \<and> rest \<noteq> [] then (tl rest, p\<lparr>pa_inv := invoc\<lparr>in_output := hd rest\<rparr>\<rparr>)
      else if starts_with arg ''-o'' \<and> length arg > 2 then (rest, p\<lparr>pa_inv := invoc\<lparr>in_output := drop 2 arg\<rparr>\<rparr>)
      else if IsNoOutputOption arg then (rest, p\<lparr>pa_inv := invoc\<lparr>in_cacheable := False, in_query := True\<rparr>\<rparr>)
      else if IsSourceFile arg then (rest, p\<lparr>pa_sources := pa_sources p + 1, pa_inv := invoc\<lparr>in_source := arg\<rparr>\<rparr>)
      else case TakePchOption arg rest invoc of
        Some (rest', invoc') \<Rightarrow> (rest', p\<lparr>pa_inv := invoc'\<rparr>)
      | None \<Rightarrow>
          if IsObjectInput arg then
            (rest, p\<lparr>pa_objects := True,
                    pa_inv := invoc\<lparr>in_inputs := in_inputs invoc @ [arg], in_key_args := in_key_args invoc @ [arg]\<rparr>\<rparr>)
          else
            (rest, p\<lparr>pa_objects := pa_objects p \<or> arg = ''-shared'' \<or> arg = ''-r'',
                    pa_inv := invoc\<lparr>in_cacheable := in_cacheable invoc \<and> \<not> starts_with arg ''@'' \<and>
                        \<not> contains arg '',@'' \<and> \<not> HasLinkerSideOutput arg \<and> \<not> ends_with arg ''-header'',
                      in_key_args := in_key_args invoc @ [arg]\<rparr>\<rparr>))"

lemma TakeDepfileOption_shorter: "TakeDepfileOption arg rest invoc = Some (rest', invoc') \<Longrightarrow> length rest' \<le> length rest"
  by (auto simp: TakeDepfileOption_def split: if_splits)

lemma TakePchOption_shorter: "TakePchOption arg rest invoc = Some (rest', invoc') \<Longrightarrow> length rest' \<le> length rest"
  using length_dropWhile_le [of "\<lambda>a. a = ''-Xclang''" rest]
  by (auto simp: TakePchOption_def Let_def split: if_splits)

lemma parse_word_shorter: "parse_word arg rest p = (rest', p') \<Longrightarrow> length rest' \<le> length rest"
  by (auto simp: parse_word_def Let_def dest: TakePchOption_shorter split: if_splits option.splits)

function parse_words :: "string list \<Rightarrow> parsing \<Rightarrow> parsing" where
  "parse_words [] p = p"
| "parse_words (arg # rest) p =
     (case TakeDepfileOption arg rest (pa_inv p) of
        Some (rest', invoc) \<Rightarrow> parse_words rest' (p\<lparr>pa_inv := invoc\<rparr>)
      | None \<Rightarrow> parse_words (fst (parse_word arg rest p)) (snd (parse_word arg rest p)))"
  by pat_completeness auto

termination parse_words
proof (relation "measure (\<lambda>(args, _). length args)", goal_cases)
  case (2 arg rest p)
  then show ?case using parse_word_shorter [OF prod.collapse [symmetric], of arg rest p] by (simp add: case_prod_beta)
qed (auto dest!: TakeDepfileOption_shorter simp: less_Suc_eq_le)

definition classify_compile :: "env \<Rightarrow> nat \<Rightarrow> invocation \<Rightarrow> nat \<Rightarrow> char option \<Rightarrow> invocation" where
  "classify_compile env pid invoc sources stop =
     (let invoc = invoc\<lparr>in_cacheable := in_cacheable invoc \<and> sources = 1\<rparr>;
          invoc = invoc\<lparr>in_query := in_query invoc \<or>
              stop = Some CHR ''E'' \<and> (sources = 0 \<or> in_source invoc = ''/dev/null'')\<rparr>
      in if stop = Some CHR ''E'' \<and> (in_output invoc = [] \<or> path_eq (in_output invoc) ''-'')
         then invoc\<lparr>in_to_stdout := True,
                  in_output := path_append (Env env ''TMPDIR'' ''/tmp'') (''jig'' @ to_string pid @ ''.i'')\<rparr>
         else if in_output invoc = []
         then invoc\<lparr>in_output := path_stem (in_source invoc) @ (if stop = Some CHR ''S'' then ''.s'' else ''.o'')\<rparr>
         else invoc)"

definition classify_link :: "invocation \<Rightarrow> nat \<Rightarrow> bool \<Rightarrow> invocation" where
  "classify_link invoc sources objects =
     (let invoc = invoc\<lparr>in_link_one := \<not> objects \<and> sources = 1\<rparr>;
          invoc = invoc\<lparr>in_link := objects \<and> sources = 0 \<and> in_inputs invoc \<noteq> []\<rparr>;
          invoc = invoc\<lparr>in_cacheable := in_cacheable invoc \<and> (in_link_one invoc \<or> in_link invoc)\<rparr>;
          invoc = (if in_output invoc = [] then invoc\<lparr>in_output := ''a.out''\<rparr> else invoc)
      in if in_link invoc then invoc\<lparr>in_source := path_filename (in_output invoc)\<rparr> else invoc)"

definition default_depfile :: "invocation \<Rightarrow> invocation" where
  "default_depfile invoc =
     (if in_wants_depfile invoc \<and> in_depfile invoc = []
      then invoc\<lparr>in_depfile := replace_extension (in_output invoc) ''.d''\<rparr> else invoc)"

definition Classify :: "env \<Rightarrow> nat \<Rightarrow> invocation \<Rightarrow> nat \<Rightarrow> bool \<Rightarrow> char option \<Rightarrow> invocation" where
  "Classify env pid invoc sources objects stop =
     default_depfile (if in_compile_only invoc then classify_compile env pid invoc sources stop
                      else classify_link invoc sources objects)"

definition cacheable_output :: "invocation \<Rightarrow> invocation" where
  "cacheable_output invoc = invoc\<lparr>in_cacheable := in_cacheable invoc \<and> path_extension (in_output invoc) \<noteq> ''.pch'' \<and>
     path_extension (in_output invoc) \<noteq> ''.gch'' \<and> \<not> path_eq (in_output invoc) ''/dev/null''\<rparr>"

definition ParseInvocation :: "env \<Rightarrow> nat \<Rightarrow> string list \<Rightarrow> invocation" where
  "ParseInvocation env pid args =
     (let p = parse_words args \<lparr>pa_inv = empty_invocation\<lparr>in_args := args\<rparr>, pa_objects = False, pa_sources = 0,
                pa_stop = None\<rparr>
      in Classify env pid (cacheable_output (pa_inv p)) (pa_sources p) (pa_objects p) (pa_stop p))"

section \<open>What the request key hashes\<close>

definition links :: "invocation \<Rightarrow> bool" where
  "links invoc \<longleftrightarrow> in_link_one invoc \<or> in_link invoc"

definition key_mode :: "invocation \<Rightarrow> string" where
  "key_mode invoc = (if in_link invoc then ''mode=link'' else if in_link_one invoc then ''mode=link-one'' else ''mode=compile'')"

definition key_arg :: "store \<Rightarrow> invocation \<Rightarrow> string \<Rightarrow> string" where
  "key_arg st invoc arg =
     (let embedded = links invoc \<and> (contains arg ''dynamic-linker'' \<or> contains arg ''rpath'') in
      if embedded then MaskOut st arg else Key st (MaskOut st arg))"

definition key_fields :: "sys \<Rightarrow> store \<Rightarrow> env \<Rightarrow> string \<Rightarrow> invocation \<Rightarrow> string \<Rightarrow> string list" where
  "key_fields sys st env compiler invoc primary =
     [''cc='' @ ToolId st (sy_canonical sys) compiler, ''cwd='' @ Key st (sy_cwd sys)] @
     (if \<not> in_link invoc then [''src='' @ Key st (MaskOut st (in_source invoc))] else []) @
     [key_mode invoc] @
     (if links invoc then [''LIBRARY_PATH='' @ MaskForReplay st (Env env ''LIBRARY_PATH'' [])] else []) @
     map (key_arg st invoc) (in_key_args invoc) @
     [MaskOut st primary]"

definition ComputeRequestKey :: "sys \<Rightarrow> store \<Rightarrow> env \<Rightarrow> string \<Rightarrow> invocation \<Rightarrow> string \<Rightarrow> string" where
  "ComputeRequestKey sys st env compiler invoc primary =
     RequestKey KCc (Finish (sy_blake3 sys) (foldl Field [] (key_fields sys st env compiler invoc primary)))"

definition is_toolchain_lib :: "string \<Rightarrow> bool" where
  "is_toolchain_lib name \<longleftrightarrow>
     starts_with name ''libLLVM'' \<or> starts_with name ''libclang-cpp'' \<or> starts_with name ''liblld''"

definition tool_files :: "sys \<Rightarrow> string \<Rightarrow> string list" where
  "tool_files sys tool =
     (case sy_canonical sys tool of
        None \<Rightarrow> []
      | Some real \<Rightarrow>
          (let dir = path_append (parent_path (parent_path real)) ''lib'' in
           real # map (\<lambda>(name, _). path_append dir name)
             (filter (\<lambda>(name, regular). is_toolchain_lib name \<and> regular) (sy_list sys dir))))"

fun tool_ids :: "sys \<Rightarrow> string list \<Rightarrow> string run" where
  "tool_ids sys [] = give []"
| "tool_ids sys (f # fs) = do {
     identity \<leftarrow> input_id sys f;
     ids \<leftarrow> tool_ids sys fs;
     give ((case identity of None \<Rightarrow> ''?'' | Some i \<Rightarrow> i) @ '','' @ ids)
   }"

definition ToolchainIds :: "sys \<Rightarrow> string \<Rightarrow> invocation \<Rightarrow> string run" where
  "ToolchainIds sys compiler invoc = do {
     tool \<leftarrow> gets (\<lambda>w. OnPath (path_exists sys w) (w_env w) compiler);
     let tools = tool # (if links invoc then map (drop 10) (filter (\<lambda>a. starts_with a ''--ld-path='') (in_args invoc)) else []);
     let files = remdups_adj (sort (concat (map (tool_files sys) tools)));
     prefetch sys files;
     tool_ids sys files
   }"

fun pch_identity :: "sys \<Rightarrow> string list \<Rightarrow> string option \<Rightarrow> string option run" where
  "pch_identity sys [] t = give t"
| "pch_identity sys (pch # pchs) t = do {
     pch_id \<leftarrow> input_id sys pch;
     (case (t, pch_id) of
        (Some s, Some i) \<Rightarrow> pch_identity sys pchs (Some (s @ [CHR 0x0A] @ ''pch='' @ i))
      | _ \<Rightarrow> give None)
   }"

fun link_identity :: "sys \<Rightarrow> string list \<Rightarrow> string \<Rightarrow> string option run" where
  "link_identity sys [] ids = give (Some ids)"
| "link_identity sys (input # inputs) ids = do {
     identity \<leftarrow> input_id sys input;
     (case identity of
        None \<Rightarrow> give None
      | Some i \<Rightarrow> link_identity sys inputs (ids @ input @ ''='' @ i @ [CHR 0x0A]))
   }"

definition PrimaryIdentity :: "sys \<Rightarrow> invocation \<Rightarrow> string option run" where
  "PrimaryIdentity sys invoc =
     (if \<not> in_link invoc then do { t \<leftarrow> read_file (in_source invoc); pch_identity sys (in_pch invoc) t }
      else link_identity sys (in_inputs invoc) [])"

section \<open>Looking up and replaying\<close>

record cached_result =
  cr_status :: int
  cr_object :: "string option"
  cr_depfile :: "string option"
  cr_stderr :: string

definition cast_int :: "nat \<Rightarrow> int" where
  "cast_int n = (let m = int n mod 2 ^ 32 in if m < 2 ^ 31 then m else m - 2 ^ 32)"

definition usable_result ::
  "store \<Rightarrow> invocation \<Rightarrow> string option \<Rightarrow> string option \<Rightarrow> string option \<Rightarrow> string option \<Rightarrow> string + cached_result" where
  "usable_result st invoc status object depfile stderr_text =
     (let code = (case status of
            Some s \<Rightarrow> if links invoc then 0 else cast_int (case ParseUint s 10 of Some n \<Rightarrow> n | None \<Rightarrow> 1)
          | None \<Rightarrow> 0);
          err = UnmaskOut st (case stderr_text of Some s \<Rightarrow> s | None \<Rightarrow> [])
      in if code \<noteq> 0 then Inr \<lparr>cr_status = code, cr_object = None, cr_depfile = None, cr_stderr = err\<rparr>
         else case object of
           None \<Rightarrow> Inl ''object-gone''
         | Some bs \<Rightarrow>
             if in_wants_depfile invoc \<and> depfile = None then Inl ''object-gone''
             else Inr \<lparr>cr_status = code, cr_object = Some (UnmaskOut st bs),
                       cr_depfile = (if in_wants_depfile invoc then map_option (UnmaskOut st) depfile else None),
                       cr_stderr = err\<rparr>)"

definition Lookup :: "sys \<Rightarrow> string \<Rightarrow> invocation \<Rightarrow> (string + cached_result) run" where
  "Lookup sys request_key invoc = do {
     result_key \<leftarrow> find_result sys request_key;
     (case result_key of
        Inl err \<Rightarrow> give (Inl err)
      | Inr key \<Rightarrow> do {
          got \<leftarrow> cache_get_many [slot_ExitStatus key, slot_Object key, slot_Depfile key, slot_Stderr key];
          gets (\<lambda>w. usable_result (w_store w) invoc (got ! 0) (got ! 1) (got ! 2) (got ! 3))
        })
   }"

definition ForwardStdout :: "invocation \<Rightarrow> string option \<Rightarrow> unit run" where
  "ForwardStdout invoc t =
     (if \<not> in_to_stdout invoc then give ()
      else do { remove_file (in_output invoc); (case t of None \<Rightarrow> give () | Some s \<Rightarrow> print_out s) })"

definition RetargetDepfile :: "string \<Rightarrow> invocation \<Rightarrow> string" where
  "RetargetDepfile s invoc =
     (let target = (if in_depfile_target invoc = [] then in_output invoc else in_depfile_target invoc) in
      case find_str '': '' s of
        None \<Rightarrow> s
      | Some colon \<Rightarrow>
          if (case find_str [CHR 0x0A] s of None \<Rightarrow> True | Some nl \<Rightarrow> nl > colon)
          then replace_at s 0 colon target else s)"

definition cannot_write :: "sys \<Rightarrow> string \<Rightarrow> string" where
  "cannot_write sys path = ''jig: cannot write '' @ path @ '': '' @ sy_error sys @ [CHR 0x0A]"

definition replay_object :: "sys \<Rightarrow> cached_result \<Rightarrow> invocation \<Rightarrow> bool run" where
  "replay_object sys result invoc =
     (if in_to_stdout invoc then do { ForwardStdout invoc (cr_object result); give True }
      else case cr_object result of
        None \<Rightarrow> give True
      | Some object \<Rightarrow> do {
          ok \<leftarrow> write_file sys (in_output invoc) object;
          if \<not> ok then do { print_err (cannot_write sys (in_output invoc)); give False }
          else do { (if links invoc then add_exec_bits (in_output invoc) else give ()); give True }
        })"

definition replay_depfile :: "sys \<Rightarrow> cached_result \<Rightarrow> invocation \<Rightarrow> bool run" where
  "replay_depfile sys result invoc =
     (case cr_depfile result of
        None \<Rightarrow> give True
      | Some depfile \<Rightarrow> do {
          resolved \<leftarrow> gets (\<lambda>w. ResolveAll (w_store w) depfile);
          ok \<leftarrow> write_file sys (in_depfile invoc) (RetargetDepfile resolved invoc);
          if ok then give True else do { print_err (cannot_write sys (in_depfile invoc)); give False }
        })"

definition Replay :: "sys \<Rightarrow> cached_result \<Rightarrow> invocation \<Rightarrow> int run" where
  "Replay sys result invoc = do {
     ok \<leftarrow> replay_object sys result invoc;
     if \<not> ok then give 1
     else do {
       ok \<leftarrow> replay_depfile sys result invoc;
       if \<not> ok then give 1
       else do { print_err (cr_stderr result); give (cr_status result) }
     }
   }"

section \<open>Compiling and storing\<close>

record observed =
  ob_run :: run_result
  ob_dep_text :: "string option"
  ob_link_dep_text :: "string option"
  ob_inputs :: "string list"
  ob_absent :: "string list"

definition observed_tmp :: "sys \<Rightarrow> invocation \<Rightarrow> string" where
  "observed_tmp sys invoc =
     (let out_dir = (if parent_path (in_output invoc) \<noteq> [] then parent_path (in_output invoc) else ''.'') in
      path_append out_dir (''.jig'' @ to_string (sy_pid sys)))"

definition own_depfile :: "invocation \<Rightarrow> bool" where
  "own_depfile invoc \<longleftrightarrow> \<not> in_wants_depfile invoc \<and> \<not> in_link invoc"

definition observed_depfile :: "sys \<Rightarrow> invocation \<Rightarrow> string" where
  "observed_depfile sys invoc = (if own_depfile invoc then observed_tmp sys invoc @ ''.d'' else in_depfile invoc)"

definition observed_args :: "sys \<Rightarrow> invocation \<Rightarrow> string list" where
  "observed_args sys invoc =
     in_args invoc @
     (if own_depfile invoc \<and> \<not> IsPlainAssembly (in_source invoc) then [''-MD'', ''-MF'', observed_depfile sys invoc]
      else if \<not> own_depfile invoc \<and> \<not> in_link invoc \<and> \<not> IsAssembly (in_source invoc) then [''-Xclang'', ''-sys-header-deps'']
      else []) @
     (if in_to_stdout invoc then [''-o'', in_output invoc] else []) @
     (if links invoc then [''-Wl,--dependency-file='' @ observed_tmp sys invoc @ ''.link.d''] else [])"

definition temp_directory_path :: "sys \<Rightarrow> env \<Rightarrow> string" where
  "temp_directory_path sys env =
     (let dir = (case find (\<lambda>v. env v \<noteq> None) [''TMPDIR'', ''TMP'', ''TEMP'', ''TEMPDIR''] of
            None \<Rightarrow> ''/tmp'' | Some v \<Rightarrow> the (env v))
      in if sy_is_dir sys dir then dir else [])"

definition driver_temp :: "string \<Rightarrow> string \<Rightarrow> bool" where
  "driver_temp tmp input \<longleftrightarrow> starts_with input tmp \<and> find_from input ''/'' (length tmp) = None"

text \<open>The run itself, under a slot, then what it read.\<close>

definition observed_run :: "sys \<Rightarrow> string \<Rightarrow> invocation \<Rightarrow> run_result run" where
  "observed_run sys compiler invoc = with_slot sys [] (do {
     setenv ''JIG_ABSENT_LOG'' (observed_tmp sys invoc @ ''.absent'');
     r \<leftarrow> Run sys compiler (observed_args sys invoc) KCapture;
     unsetenv ''JIG_ABSENT_LOG'';
     give r
   })"

definition learn_inputs :: "sys \<Rightarrow> invocation \<Rightarrow> run_result \<Rightarrow> observed run" where
  "learn_inputs sys invoc r = do {
     let depfile = observed_depfile sys invoc;
     let link_depfile = observed_tmp sys invoc @ ''.link.d'';
     let absent_log = observed_tmp sys invoc @ ''.absent'';
     dep_text \<leftarrow> (if in_link invoc then give (Some [])
       else if own_depfile invoc \<and> IsPlainAssembly (in_source invoc) then give (Some (''o: '' @ in_source invoc))
       else read_file depfile);
     link_dep_text \<leftarrow> (if links invoc then read_file link_depfile else give None);
     absent_text \<leftarrow> read_file absent_log;
     remove_file absent_log;
     (if own_depfile invoc then remove_file depfile else give ());
     remove_file link_depfile;
     tmp \<leftarrow> gets (\<lambda>w. temp_directory_path sys (w_env w) @ ''/'');
     give \<lparr>ob_run = r, ob_dep_text = dep_text, ob_link_dep_text = link_dep_text,
       ob_inputs = (case dep_text of None \<Rightarrow> [] | Some s \<Rightarrow> ParseDepfile s) @
         (case link_dep_text of None \<Rightarrow> [] | Some s \<Rightarrow> filter (\<lambda>i. \<not> driver_temp tmp i) (ParseDepfile s)),
       ob_absent = (case absent_text of None \<Rightarrow> [] | Some s \<Rightarrow> Split s CHR 0x0A False)\<rparr>
   }"

definition RunObserved :: "sys \<Rightarrow> string \<Rightarrow> invocation \<Rightarrow> observed run" where
  "RunObserved sys compiler invoc = do {
     r \<leftarrow> observed_run sys compiler invoc;
     print_err (rr_stderr r);
     learn_inputs sys invoc r
   }"

definition store_failure :: "sys \<Rightarrow> string \<Rightarrow> invocation \<Rightarrow> observed \<Rightarrow> unit run" where
  "store_failure sys request_key invoc obs = do {
     st \<leftarrow> gets w_store;
     m \<leftarrow> build_manifest sys request_key (ob_inputs obs) (in_source invoc) (ob_absent obs);
     cache_put (slot_Manifest request_key) (m_text m);
     cache_put (slot_ExitStatus (m_result_key m)) (to_string (nat (rr_status (ob_run obs))));
     cache_put (slot_Stderr (m_result_key m)) (MaskOut st (rr_stderr (ob_run obs)))
   }"

definition store_result :: "sys \<Rightarrow> string \<Rightarrow> invocation \<Rightarrow> observed \<Rightarrow> string \<Rightarrow> unit run" where
  "store_result sys request_key invoc obs object = do {
     st \<leftarrow> gets w_store;
     m \<leftarrow> build_manifest sys request_key (ob_inputs obs) (in_source invoc) (ob_absent obs);
     cache_put (slot_Manifest request_key) (m_text m);
     cache_put (slot_Object (m_result_key m)) (MaskOut st object);
     cache_put (slot_Stderr (m_result_key m)) (MaskOut st (rr_stderr (ob_run obs)));
     (case ob_dep_text obs of
        Some dep_text \<Rightarrow>
          if in_wants_depfile invoc
          then cache_put (slot_Depfile (m_result_key m)) (MaskOut st (MaskForReplay st dep_text)) else give ()
      | None \<Rightarrow> give ())
   }"

definition CompileAndStore :: "sys \<Rightarrow> string \<Rightarrow> string \<Rightarrow> invocation \<Rightarrow> string \<Rightarrow> int run" where
  "CompileAndStore sys compiler request_key invoc why = do {
     let subject = in_source invoc @ '' '' @ why;
     obs \<leftarrow> RunObserved sys compiler invoc;
     let r = ob_run obs;
     if rr_status r \<noteq> 0 then do {
       ForwardStdout invoc None;
       if ob_dep_text obs = None \<or> links invoc \<or> contains (rr_stderr r) ''file not found'' \<or> \<not> Deterministic r
       then do { log_outcome sys ''cc'' KMissFail subject; give (rr_status r) }
       else do {
         store_failure sys request_key invoc obs;
         log_outcome sys ''cc'' KMissStoredFail subject;
         give (rr_status r)
       }
     }
     else do {
       object \<leftarrow> read_file (in_output invoc);
       ForwardStdout invoc object;
       (case object of
          Some bs \<Rightarrow>
            if ob_dep_text obs = None \<or> links invoc \<and> ob_link_dep_text obs = None
            then do { log_outcome sys ''cc'' KMissUnstored subject; give 0 }
            else do {
              store_result sys request_key invoc obs bs;
              log_outcome sys ''cc'' KMissStored subject;
              give 0
            }
        | None \<Rightarrow> do { log_outcome sys ''cc'' KMissUnstored subject; give 0 })
     }
   }"

section \<open>The mode\<close>

definition LogUncached :: "sys \<Rightarrow> outcome \<Rightarrow> string list \<Rightarrow> unit run" where
  "LogUncached sys outcome user_args = do {
     path \<leftarrow> get_env ''JIG_LOG_ARGS'' [];
     if path = [] \<or> outcome = KPlainQuery then give ()
     else append_file sys path (OutcomeName outcome @ [CHR 0x09] @ Join user_args '' '' @ [CHR 0x0A])
   }"

definition uncached_outcome :: "invocation \<Rightarrow> bool \<Rightarrow> outcome" where
  "uncached_outcome invoc has_primary =
     (if in_query invoc then KPlainQuery
      else if \<not> in_cacheable invoc then (if in_compile_only invoc then KPlainCompile else KPlainLink)
      else if \<not> has_primary then KPlainNoSource
      else KPlainNoSocket)"

definition RunUncached :: "sys \<Rightarrow> string \<Rightarrow> string \<Rightarrow> invocation \<Rightarrow> bool \<Rightarrow> string list \<Rightarrow> int run" where
  "RunUncached sys socket_path compiler invoc has_primary user_args = do {
     let body = Run sys compiler (in_args invoc) KInherit;
     r \<leftarrow> (if in_source invoc \<noteq> [] \<or> in_inputs invoc \<noteq> [] then with_slot sys socket_path body else body);
     let outcome = uncached_outcome invoc has_primary;
     log_outcome sys ''cc'' outcome (in_source invoc);
     LogUncached sys outcome user_args;
     give (rr_status r)
   }"

definition driver_host_of :: "sys \<Rightarrow> (string \<Rightarrow> json option) \<Rightarrow> string option \<Rightarrow> world \<Rightarrow> driver_host" where
  "driver_host_of sys parse exe w = \<lparr>dh_store = w_store w, dh_canonical = sy_canonical sys,
     dh_exists = path_exists sys w, dh_read = w_files w, dh_env = w_env w, dh_json = parse, dh_exe = exe\<rparr>"

definition cc_language :: "string \<Rightarrow> language" where
  "cc_language name =
     (if contains name ''++'' then KCxx
      else if contains name ''fortran'' \<or> contains name ''flang'' then KFortran else KC)"

definition cc_invocation :: "driver_host \<Rightarrow> nat \<Rightarrow> driver_conf \<Rightarrow> language \<Rightarrow> string list \<Rightarrow> invocation" where
  "cc_invocation h pid conf lang user_args =
     (let invoc = ParseInvocation (dh_env h) pid user_args;
          invoc = (if links invoc \<and> dc_binfmt conf \<noteq> KElf \<or> lang = KFortran then invoc\<lparr>in_cacheable := False\<rparr> else invoc)
      in if dc_present conf
         then let args = BuildDriverArgs h conf lang user_args in
           invoc\<lparr>in_args := args, in_key_args := in_key_args invoc @ filter (\<lambda>a. a \<notin> set user_args) args\<rparr>
         else invoc)"

definition run_cached :: "sys \<Rightarrow> string \<Rightarrow> invocation \<Rightarrow> string \<Rightarrow> int run" where
  "run_cached sys compiler invoc primary = do {
     ids \<leftarrow> ToolchainIds sys compiler invoc;
     request_key \<leftarrow> gets (\<lambda>w. ComputeRequestKey sys (w_store w) (w_env w) compiler invoc
       (primary @ [CHR 0x0A] @ ''toolchain='' @ ids));
     hit \<leftarrow> Lookup sys request_key invoc;
     (case hit of
        Inr result \<Rightarrow> do {
          status \<leftarrow> Replay sys result invoc;
          log_outcome sys ''cc'' (if status = 0 then KHit else KHitFail) (in_source invoc);
          give status
        }
      | Inl why \<Rightarrow> CompileAndStore sys compiler request_key invoc why)
   }"

definition run_configured :: "sys \<Rightarrow> driver_host \<Rightarrow> driver_conf \<Rightarrow> string \<Rightarrow> string list \<Rightarrow> string \<Rightarrow> int run" where
  "run_configured sys h conf name user_args socket_path =
     (let lang = cc_language name in
      if lang = KFortran \<and> dc_fc conf = [] then do {
        print_err (''jig: '' @ name @ '' called but etc/jig.json names no fc'' @ [CHR 0x0A]);
        give 1
      }
      else do {
        let compiler = (if lang = KFortran then dc_fc conf else dc_cc conf);
        let invoc = cc_invocation h (sy_pid sys) conf lang user_args;
        primary \<leftarrow> (if in_cacheable invoc then PrimaryIdentity sys invoc else give None);
        (case primary of
           None \<Rightarrow> RunUncached sys socket_path compiler invoc False user_args
         | Some p \<Rightarrow> do {
             up \<leftarrow> cache_connect sys socket_path;
             if up then run_cached sys compiler invoc p
             else RunUncached sys socket_path compiler invoc True user_args
           })
      })"

text \<open>\<open>RunCcMode\<close> returns the exit status, or the reason the configuration ends the process.\<close>

definition RunCcMode ::
  "sys \<Rightarrow> (string \<Rightarrow> json option) \<Rightarrow> string option \<Rightarrow> string \<Rightarrow> string list \<Rightarrow> string \<Rightarrow> (conf_error + int) run" where
  "RunCcMode sys parse exe argv0 raw_args socket_path = do {
     w \<leftarrow> gets id;
     let user_args = ExpandResponseFiles (w_files w) raw_args;
     let h = driver_host_of sys parse exe w;
     (case LoadDriverConf h of
        Inl err \<Rightarrow> do { print_err (conf_message err); give (Inl err) }
      | Inr None \<Rightarrow> do {
          print_err (''jig: no etc/jig.json next to the binary and JIG_CC unset'' @ [CHR 0x0A]);
          give (Inr 1)
        }
      | Inr (Some conf) \<Rightarrow> do {
          status \<leftarrow> run_configured sys h conf (path_filename argv0) user_args socket_path;
          give (Inr status)
        })
   }"

end
