(* ===== verification/Cc_Replay.thy ===== *)
theory Cc_Replay
  imports Cc_Mode
begin

text \<open>
  What the compiler wrapper guarantees.  A compilation that was stored is found by a later run whose inputs
  read the same, with the object, the messages and the dependencies of the real compiler; replaying it
  leaves the files and the messages the compiler would have left.  Whatever the daemon does, the wrapper
  reports the status of the compiler, and only failures that say something about the inputs are remembered.
\<close>

section \<open>What the steps leave alone\<close>

text \<open>A step that talks to no daemon and changes no identity: everything but files and output is kept.\<close>

definition local_step :: "'a run \<Rightarrow> bool" where
  "local_step m \<longleftrightarrow> (\<forall>w. let w' = snd (run_state m w) in w_store w' = w_store w \<and> w_open w' = w_open w \<and>
     w_cache w' = w_cache w \<and> w_faults w' = w_faults w \<and> w_held w' = w_held w)"

named_theorems local_intros

lemma local_step_bind [local_intros]:
  "local_step m \<Longrightarrow> (\<And>a. local_step (f a)) \<Longrightarrow> local_step (State_Monad.bind m f)"
  by (simp add: local_step_def run_simps Let_def case_prod_beta)

lemma local_step_basic [local_intros]:
  "local_step (give a)" "local_step (gets g)" "local_step (read_file path)" "local_step (remove_file path)"
  "local_step (print_out s)" "local_step (print_err s)" "local_step (setenv n v)" "local_step (unsetenv n)"
  "local_step (get_env n d)" "local_step (write_file sys path data)" "local_step (add_exec_bits path)"
  "local_step (append_file sys path data)" "local_step (Run sys program args mode)" "local_step (input_id sys path)"
  by (simp_all add: local_step_def run_simps append_file_def Run_def Let_def)

lemma local_step_if [local_intros]:
  "(b \<Longrightarrow> local_step m) \<Longrightarrow> (\<not> b \<Longrightarrow> local_step n) \<Longrightarrow> local_step (if b then m else n)"
  by simp

lemma local_step_option [local_intros]:
  "local_step m \<Longrightarrow> (\<And>x. local_step (f x)) \<Longrightarrow> local_step (case z of None \<Rightarrow> m | Some x \<Rightarrow> f x)"
  by (cases z) simp_all

lemma local_step_log_outcome [local_intros]: "local_step (log_outcome sys tool outcome subject)"
  unfolding log_outcome_def by (intro local_intros)

lemma local_step_ForwardStdout [local_intros]: "local_step (ForwardStdout invoc t)"
  unfolding ForwardStdout_def by (intro local_intros)

lemma local_stepD:
  assumes "local_step m" "run_state m w = (a, w')"
  shows "w_store w' = w_store w \<and> w_open w' = w_open w \<and> w_cache w' = w_cache w \<and> w_faults w' = w_faults w \<and>
    w_held w' = w_held w"
proof -
  have "snd (run_state m w) = w'" using assms(2) by simp
  with assms(1) show ?thesis by (auto simp: local_step_def Let_def)
qed

lemma run_if_snd: "snd (if b then x else y) = (if b then snd x else snd y)"
  by simp

text \<open>A run under a slot: the connection is used, the cache and the store are not.\<close>

lemma with_slot_reliable:
  assumes "local_step body" "keeps_slot body" "reliable w" "run_state (with_slot sys socket body) w = (a, w')"
  shows "w_store w' = w_store w \<and> w_cache w' = w_cache w \<and> reliable w'"
proof (cases "Env (w_env w) kSlotEnv [] = []")
  case True
  let ?w0 = "w\<lparr>w_held := Env (w_env w) ''NIX_BUILD_TOP'' ''-'' # w_held w, w_env := (w_env w)(kSlotEnv \<mapsto> ''1'')\<rparr>"
  obtain b w1 where r: "run_state body ?w0 = (b, w1)" by fastforce
  have "w' = w1\<lparr>w_held := w_held w, w_env := (w_env w1)(kSlotEnv := None)\<rparr>"
    using run_with_slot [OF assms(2,3) True r, of sys socket] assms(4) by simp
  then show ?thesis using local_stepD [OF assms(1) r] assms(3) by simp
next
  case False
  then have "run_state body w = (a, w')"
    using assms(3,4) by (simp add: with_slot_def slot_destruct_def run_simps)
  then show ?thesis using local_stepD [OF assms(1)] assms(3) by auto
qed

lemma local_step_learn_inputs [local_intros]: "local_step (learn_inputs sys invoc r)"
  unfolding learn_inputs_def Let_def by (intro local_intros)

lemma observed_run_reliable:
  assumes "reliable w" "run_state (observed_run sys compiler invoc) w = (r, w')"
  shows "w_store w' = w_store w \<and> w_cache w' = w_cache w \<and> reliable w'"
proof (rule with_slot_reliable [OF _ _ assms(1) assms(2) [unfolded observed_run_def]])
  have "keeps_slot (setenv ''JIG_ABSENT_LOG'' v)" "keeps_slot (unsetenv ''JIG_ABSENT_LOG'')" for v
    by (rule keeps_slotI, simp add: run_simps kSlotEnv_def)+
  then show "keeps_slot (do { setenv ''JIG_ABSENT_LOG'' (observed_tmp sys invoc @ ''.absent'');
      r \<leftarrow> Run sys compiler (observed_args sys invoc) KCapture; unsetenv ''JIG_ABSENT_LOG''; give r })"
    by (intro keeps_slot_bind keeps_slot_Run keeps_slot_give)
qed (intro local_intros)

lemma RunObserved_reliable:
  assumes "reliable w" "run_state (RunObserved sys compiler invoc) w = (obs, w')"
  shows "w_store w' = w_store w \<and> w_cache w' = w_cache w \<and> reliable w'"
proof -
  obtain r w1 where r: "run_state (observed_run sys compiler invoc) w = (r, w1)" by fastforce
  have w1: "w_store w1 = w_store w \<and> w_cache w1 = w_cache w \<and> reliable w1"
    by (rule observed_run_reliable [OF assms(1) r])
  have "local_step (do { print_err (rr_stderr r); learn_inputs sys invoc r })" by (intro local_intros)
  moreover have "run_state (do { print_err (rr_stderr r); learn_inputs sys invoc r }) w1 = (obs, w')"
    using assms(2) r by (simp add: RunObserved_def)
  ultimately show ?thesis using local_stepD w1 by metis
qed

section \<open>Storing and finding\<close>

text \<open>The entries a successful compilation leaves.\<close>

definition result_entries :: "store \<Rightarrow> string \<Rightarrow> invocation \<Rightarrow> observed \<Rightarrow> string \<Rightarrow> manifest \<Rightarrow> (string \<times> string) list" where
  "result_entries st rk invoc obs object m =
     [(slot_Manifest rk, m_text m), (slot_Object (m_result_key m), MaskOut st object),
      (slot_Stderr (m_result_key m), MaskOut st (rr_stderr (ob_run obs)))] @
     (case ob_dep_text obs of
        Some dep_text \<Rightarrow>
          if in_wants_depfile invoc then [(slot_Depfile (m_result_key m), MaskOut st (MaskForReplay st dep_text))] else []
      | None \<Rightarrow> [])"

definition observed_manifest :: "sys \<Rightarrow> world \<Rightarrow> string \<Rightarrow> invocation \<Rightarrow> observed \<Rightarrow> manifest" where
  "observed_manifest sys w rk invoc obs =
     snd (BuildManifest (host_of sys True w) (w_store w) rk (ob_inputs obs) (in_source invoc) (ob_absent obs))"

lemma run_store_result:
  assumes "reliable w"
  shows "w_cache (snd (run_state (store_result sys rk invoc obs object) w)) =
    w_cache w ++ map_of (rev (result_entries (w_store w) rk invoc obs object (observed_manifest sys w rk invoc obs)))"
  using assms
  by (simp add: observed_manifest_def store_result_def result_entries_def run_simps Let_def split: option.split del: fun_upd_apply)

lemma result_entries_lookup:
  assumes "ob_dep_text obs = Some dep" "c = cache ++ map_of (rev (result_entries st rk invoc obs object m))"
  shows "c (slot_Manifest rk) = Some (m_text m)" "c (slot_Object (m_result_key m)) = Some (MaskOut st object)"
    "c (slot_Stderr (m_result_key m)) = Some (MaskOut st (rr_stderr (ob_run obs)))"
    "in_wants_depfile invoc \<Longrightarrow> c (slot_Depfile (m_result_key m)) = Some (MaskOut st (MaskForReplay st dep))"
    "c (slot_ExitStatus (m_result_key m)) = cache (slot_ExitStatus (m_result_key m))"
  using assms(1) by (simp_all add: assms(2) result_entries_def slot_defs)

lemma CompileAndStore_stores:
  assumes "reliable w" "run_state (RunObserved sys compiler invoc) w = (obs, w1)"
    and "rr_status (ob_run obs) = 0" "ob_dep_text obs \<noteq> None" "links invoc \<longrightarrow> ob_link_dep_text obs \<noteq> None"
    and "w_files w1 (in_output invoc) = Some object"
    and fwd: "run_state (ForwardStdout invoc (Some object)) w1 = ((), w2)"
  shows "w_cache (snd (run_state (CompileAndStore sys compiler rk invoc why) w)) =
    w_cache (snd (run_state (store_result sys rk invoc obs object) w2))"
proof -
  have "local_step (do { log_outcome sys ''cc'' KMissStored (in_source invoc @ '' '' @ why); give (0::int) })"
    by (intro local_intros)
  then have "w_cache (snd (run_state (do { log_outcome sys ''cc'' KMissStored (in_source invoc @ '' '' @ why); give (0::int) }) w3)) =
      w_cache w3" for w3 by (simp add: local_step_def Let_def)
  then show ?thesis
    using assms by (auto simp: CompileAndStore_def Let_def run_bind run_read_file simp del: run_state_bind)
qed

lemma forget_ids_masks:
  assumes "forget_ids st' = forget_ids st"
  shows "UnmaskOut st' = UnmaskOut st" "MaskOut st' = MaskOut st" "MaskForReplay st' = MaskForReplay st"
proof -
  have "st_dir st' = st_dir st" "st_out_hash st' = st_out_hash st" "st_by_content st' = st_by_content st"
    using arg_cong [OF assms, of st_dir] arg_cong [OF assms, of st_out_hash] arg_cong [OF assms, of st_by_content]
    by simp_all
  then show "UnmaskOut st' = UnmaskOut st" "MaskOut st' = MaskOut st" "MaskForReplay st' = MaskForReplay st"
    by (simp_all add: fun_eq_iff UnmaskOut_def MaskOut_def MaskForReplay_def MaskHashes_def SwapOutHash_def
        out_pattern_def Let_def)
qed

lemma run_Lookup:
  assumes "reliable w" "w_cache w (slot_Manifest rk) = Some s"
    and "snd (ValidateManifest (host_of sys True w) (w_store w) rk s) = Inr key"
  shows "fst (run_state (Lookup sys rk invoc) w) =
    usable_result (fst (ValidateManifest (host_of sys True w) (w_store w) rk s)) invoc (w_cache w (slot_ExitStatus key))
      (w_cache w (slot_Object key)) (w_cache w (slot_Depfile key)) (w_cache w (slot_Stderr key))"
  using assms by (simp add: Lookup_def run_simps FindResult_def Let_def)

lemma ValidateManifest_masks: "UnmaskOut (fst (ValidateManifest h st rk s)) = UnmaskOut st"
  by (simp add: ValidateManifest_def Let_def fun_eq_iff UnmaskOut_def SwapOutHash_def out_pattern_def)

text \<open>What a later run has in common with the one that stored: the daemon, the masks and what the
  compilation read.\<close>

definition later_run :: "sys \<Rightarrow> world \<Rightarrow> world \<Rightarrow> observed \<Rightarrow> bool" where
  "later_run sys w w' obs \<longleftrightarrow> reliable w' \<and> forget_ids (w_store w') = forget_ids (w_store w) \<and>
     ids_from (sy_ident sys) (w_store w') \<and>
     same_inputs (host_of sys True w) (host_of sys True w') (ob_inputs obs) (ob_absent obs)"

lemma stored_is_found:
  assumes w: "reliable w" "ids_from (sy_ident sys) (w_store w)" and later: "later_run sys w w' obs"
    and line: "\<And>q. CHR 0x0A \<notin> set (sy_ident sys q)"
    and known: "list_all (known_path (forget_ids (w_store w))) (ob_inputs obs @ ob_absent obs)"
    and cache: "w_cache w' = w_cache (snd (run_state (store_result sys rk invoc obs object) w))"
    and dep: "ob_dep_text obs = Some dep"
    and bytes: "storable (w_store w) object" "storable (w_store w) (rr_stderr (ob_run obs))"
      "storable (w_store w) (MaskForReplay (w_store w) dep)"
    and no_failure: "links invoc \<or> w_cache w (slot_ExitStatus (m_result_key (observed_manifest sys w rk invoc obs))) = None"
  shows "fst (run_state (Lookup sys rk invoc) w') = Inr \<lparr>cr_status = 0, cr_object = Some object,
    cr_depfile = (if in_wants_depfile invoc then Some (MaskForReplay (w_store w) dep) else None),
    cr_stderr = rr_stderr (ob_run obs)\<rparr>"
proof -
  let ?m = "observed_manifest sys w rk invoc obs"
  have l: "reliable w'" "forget_ids (w_store w') = forget_ids (w_store w)" "ids_from (sy_ident sys) (w_store w')"
    "same_inputs (host_of sys True w) (host_of sys True w') (ob_inputs obs) (ob_absent obs)"
    using later unfolding later_run_def by blast+
  note entries = result_entries_lookup [OF dep cache [unfolded run_store_result [OF w(1)]]]
  have valid: "snd (ValidateManifest (host_of sys True w') (w_store w') rk (m_text ?m)) = Inr (m_result_key ?m)"
    unfolding observed_manifest_def
    by (rule BuildManifest_found [OF answers_host_of answers_host_of line w(2) l(3,2) known l(4)])
  have masks: "UnmaskOut (fst (ValidateManifest (host_of sys True w') (w_store w') rk (m_text ?m))) = UnmaskOut (w_store w)"
    by (simp only: ValidateManifest_masks forget_ids_masks(1) [OF l(2)])
  have "fst (run_state (Lookup sys rk invoc) w') =
      usable_result (fst (ValidateManifest (host_of sys True w') (w_store w') rk (m_text ?m))) invoc
        (w_cache w' (slot_ExitStatus (m_result_key ?m))) (w_cache w' (slot_Object (m_result_key ?m)))
        (w_cache w' (slot_Depfile (m_result_key ?m))) (w_cache w' (slot_Stderr (m_result_key ?m)))"
    by (rule run_Lookup [OF l(1) entries(1) valid])
  also have "\<dots> = Inr \<lparr>cr_status = 0, cr_object = Some (UnmaskOut (w_store w) (MaskOut (w_store w) object)),
      cr_depfile = (if in_wants_depfile invoc
        then Some (UnmaskOut (w_store w) (MaskOut (w_store w) (MaskForReplay (w_store w) dep))) else None),
      cr_stderr = UnmaskOut (w_store w) (MaskOut (w_store w) (rr_stderr (ob_run obs)))\<rparr>"
    using no_failure unfolding usable_result_def masks entries(2,3,5) Let_def
    by (cases "in_wants_depfile invoc"; cases "links invoc") (simp_all add: entries(4) split: option.split)
  finally show ?thesis by (simp only: UnmaskOut_storable [OF bytes(1)] UnmaskOut_storable [OF bytes(2)]
      UnmaskOut_storable [OF bytes(3)])
qed


definition demo_call :: invocation where
  "demo_call = ParseInvocation Map.empty 7 [''-c'', ''x.c'', ''-o'', ''x.o'']"

definition demo_after :: world where
  "demo_after = snd (run_state (RunObserved demo_sys ''cc'' demo_call) demo_world)"

definition demo_obs :: observed where
  "demo_obs = fst (run_state (RunObserved demo_sys ''cc'' demo_call) demo_world)"

definition demo_later :: world where
  "demo_later = demo_world\<lparr>w_files := [''x.c'' \<mapsto> ''int x;'', ''a.h'' \<mapsto> ''int a;'', ''b.h'' \<mapsto> ''int b;''],
     w_cache := w_cache (snd (run_state (CompileAndStore demo_sys ''cc'' ''k'' demo_call ''new-key'') demo_world))\<rparr>"

lemma demo_after_store: "w_store demo_after = nix_store \<and> w_cache demo_after = Map.empty \<and> reliable demo_after"
  using RunObserved_reliable [of demo_world demo_sys "''cc''" demo_call demo_obs demo_after]
  by (simp add: demo_after_def demo_obs_def demo_world_def)

lemma demo_no_ids: "st_known_ids nix_store = (\<lambda>_. None)"
  by (simp add: nix_store_def)

lemma demo_later_run: "later_run demo_sys demo_after demo_later demo_obs"
proof -
  have "list_all (\<lambda>p. w_files demo_world p = w_files demo_after p) (ob_inputs demo_obs)" "ob_absent demo_obs = []"
    "ob_inputs demo_obs = [''x.c'', ''a.h'']"
    by code_simp+
  then show ?thesis
    using demo_after_store demo_no_ids
    by (simp add: later_run_def same_inputs_def demo_later_def demo_world_def)
qed

lemma demo_storable: "storable nix_store s = (\<not> contains s (out_pattern nix_store kOutPlaceholder))"
proof -
  have "store_wf nix_store" by (simp add: store_wf_def nix_store_def)
  then show ?thesis by (simp add: storable_def) (simp add: nix_store_def)
qed

lemma demo_facts:
  "rr_status (ob_run demo_obs) = 0" "ob_dep_text demo_obs = Some ''x.o: x.c a.h''" "\<not> links demo_call"
  "w_files demo_after (in_output demo_call) = Some ''obj''" "\<not> in_to_stdout demo_call" "\<not> in_wants_depfile demo_call"
  "rr_stderr (ob_run demo_obs) = ''warn''"
  "list_all (known_path nix_store) (ob_inputs demo_obs @ ob_absent demo_obs)"
  by code_simp+

lemma demo_bytes:
  "storable nix_store ''obj''" "storable nix_store ''warn''" "storable nix_store (MaskForReplay nix_store ''x.o: x.c a.h'')"
  unfolding demo_storable by code_simp+

lemma demo_world_fields:
  "forget_ids nix_store = nix_store" "w_store demo_world = nix_store" "reliable demo_world" "w_cache demo_world k = None"
  "CHR 0x0A \<notin> set (sy_ident demo_sys q)"
  by (simp_all add: nix_store_def demo_world_def demo_sys_def)


section \<open>Replaying\<close>

text \<open>C25: replaying a hit leaves what the compiler would have left.  If the writes succeed, the output file
  holds the object, the depfile (where one was asked for) the stored dependencies in the paths of this build
  under the target of this run, the messages are repeated and the stored status is returned; every file but
  these two and their temporaries is as before.\<close>

theorem Replay_outputs:
  assumes "\<not> in_to_stdout invoc" "cr_object result = Some object" "cr_depfile result = Some depfile"
    and "sy_write sys (in_output invoc) = \<lparr>wp_open = True, wp_full = None, wp_rename = True\<rparr>"
    and "sy_write sys (in_depfile invoc) = \<lparr>wp_open = True, wp_full = None, wp_rename = True\<rparr>"
    and "in_output invoc \<noteq> in_depfile invoc" "in_output invoc \<noteq> WriteFile_tmp (sy_pid sys) (in_depfile invoc)"
    and "run_state (Replay sys result invoc) w = (status, w')"
  shows "status = cr_status result \<and> w_stderr w' = w_stderr w @ cr_stderr result \<and>
    w_files w' (in_output invoc) = Some object \<and>
    w_files w' (in_depfile invoc) = Some (RetargetDepfile (ResolveAll (w_store w) depfile) invoc) \<and>
    (\<forall>q. q \<notin> {in_output invoc, in_depfile invoc, WriteFile_tmp (sy_pid sys) (in_output invoc),
      WriteFile_tmp (sy_pid sys) (in_depfile invoc)} \<longrightarrow> w_files w' q = w_files w q)"
proof -
  have written: "WriteFile \<lparr>wp_open = True, wp_full = None, wp_rename = True\<rparr> pid files path data =
      (True, [files, files(WriteFile_tmp pid path \<mapsto> []), files(WriteFile_tmp pid path \<mapsto> data),
        (files(WriteFile_tmp pid path \<mapsto> data, path \<mapsto> data))(WriteFile_tmp pid path := None)])" for pid files path data
    by (simp add: WriteFile_def Let_def)
  show ?thesis
    using assms not_sym [OF WriteFile_tmp_neq [of "sy_pid sys" "in_output invoc"]]
      not_sym [OF WriteFile_tmp_neq [of "sy_pid sys" "in_depfile invoc"]]
    by (cases "links invoc") (auto simp: Replay_def replay_object_def replay_depfile_def run_simps written)
qed

theorem Replay_outputs_witness:
  "w_files (snd (run_state (Replay demo_sys \<lparr>cr_status = 0, cr_object = Some ''obj'',
      cr_depfile = Some ''old.o: x.c'', cr_stderr = ''warn''\<rparr> (demo_call\<lparr>in_depfile := ''x.d''\<rparr>)) demo_world)) ''x.d'' =
   Some ''x.o: x.c''"
proof -
  let ?r = "\<lparr>cr_status = 0, cr_object = Some ''obj'', cr_depfile = Some ''old.o: x.c'', cr_stderr = ''warn''\<rparr>"
  let ?c = "demo_call\<lparr>in_depfile := ''x.d''\<rparr>"
  have "in_output demo_call = ''x.o''" "WriteFile_tmp 7 ''x.d'' \<noteq> ''x.o''"
    "RetargetDepfile (ResolveAll nix_store ''old.o: x.c'') ?c = ''x.o: x.c''"
    by code_simp+
  with demo_facts(5) show ?thesis
    using Replay_outputs [of ?c ?r "''obj''" "''old.o: x.c''" demo_sys demo_world, OF _ _ _ _ _ _ _ prod.collapse [symmetric]]
      demo_world_fields(2)
    by (simp add: demo_sys_def)
qed

section \<open>The status, and which failures are remembered\<close>

text \<open>C26: the wrapper is transparent.  Whatever the daemon does to any exchange, a compilation that is not
  replayed reports the status of the compiler.\<close>

theorem CompileAndStore_status:
  "fst (run_state (CompileAndStore sys compiler rk invoc why) w) =
     rr_status (ob_run (fst (run_state (RunObserved sys compiler invoc) w)))"
  by (simp add: CompileAndStore_def Let_def run_bind split: option.split del: run_state_bind)

definition keeps_failures :: "'a run \<Rightarrow> bool" where
  "keeps_failures m \<longleftrightarrow> (\<forall>w k. w_cache (snd (run_state m w)) (slot_ExitStatus k) = w_cache w (slot_ExitStatus k))"

lemma keeps_failures_bind [local_intros]:
  "keeps_failures m \<Longrightarrow> (\<And>a. keeps_failures (f a)) \<Longrightarrow> keeps_failures (State_Monad.bind m f)"
  by (simp add: keeps_failures_def run_bind del: run_state_bind)

lemma keeps_failures_local: "local_step m \<Longrightarrow> keeps_failures m"
  by (simp add: keeps_failures_def local_step_def Let_def)

lemma keeps_failures_cache [local_intros]:
  "(\<And>k. key \<noteq> slot_ExitStatus k) \<Longrightarrow> keeps_failures (cache_put key value)"
  "keeps_failures (build_manifest sys rk inputs primary absent)"
  "keeps_failures (slot_construct sys socket)" "keeps_failures (slot_destruct s)"
  by (auto simp: keeps_failures_def cache_put_def build_manifest_def ask_host_def slot_construct_def slot_destruct_def
      cache_acquire_def cache_release_def cache_connect_def next_fault_def run_simps
      split: option.split list.split prod.split simp del: run_state_bind)

lemma keeps_failures_RunObserved: "keeps_failures (RunObserved sys compiler invoc)"
  unfolding RunObserved_def observed_run_def with_slot_def
  by (intro local_intros keeps_failures_local [OF local_step_learn_inputs] keeps_failures_local [OF local_step_basic(1)]
      keeps_failures_local [OF local_step_basic(6)] keeps_failures_local [OF local_step_basic(7)]
      keeps_failures_local [OF local_step_basic(8)] keeps_failures_local [OF local_step_basic(13)])

lemma keeps_failures_store_result: "keeps_failures (store_result sys rk invoc obs object)"
proof -
  have "keeps_failures (case ob_dep_text obs of Some dep \<Rightarrow> if in_wants_depfile invoc
      then cache_put (slot_Depfile k) (MaskOut st (MaskForReplay st dep)) else give () | None \<Rightarrow> give ())" for k st
    using keeps_failures_cache(1) [of "slot_Depfile k"] keeps_failures_local [OF local_step_basic(1)]
    by (auto simp: slot_defs split: option.split)
  moreover have "keeps_failures (cache_put (slot_Manifest k) v)" "keeps_failures (cache_put (slot_Object k) v)"
    "keeps_failures (cache_put (slot_Stderr k) v)" for k v
    by (rule keeps_failures_cache(1), simp add: slot_defs)+
  ultimately show ?thesis
    unfolding store_result_def
    by (intro keeps_failures_bind keeps_failures_cache(2) keeps_failures_local [OF local_step_basic(2)])
qed

text \<open>C24: only failures that are a property of the inputs are remembered.  If a compilation changes the
  cached exit status of any entry, the compiler failed in a compile-only run, it was not killed and did not
  crash, all its inputs are known, and it did not miss a file.\<close>

theorem remembered_failures:
  assumes "w_cache (snd (run_state (CompileAndStore sys compiler rk invoc why) w)) (slot_ExitStatus k) \<noteq>
    w_cache w (slot_ExitStatus k)"
    and "fst (run_state (RunObserved sys compiler invoc) w) = obs"
  shows "rr_status (ob_run obs) \<noteq> 0 \<and> rr_status (ob_run obs) < 128 \<and> \<not> links invoc \<and> Deterministic (ob_run obs) \<and>
    ob_dep_text obs \<noteq> None \<and> \<not> contains (rr_stderr (ob_run obs)) ''file not found''"
proof (rule ccontr)
  assume bad: "\<not> ?thesis"
  let ?w1 = "snd (run_state (RunObserved sys compiler invoc) w)"
  note [simp] = keeps_failures_RunObserved [unfolded keeps_failures_def, rule_format]
    keeps_failures_store_result [unfolded keeps_failures_def, rule_format]
    keeps_failures_local [OF local_step_log_outcome, unfolded keeps_failures_def, rule_format]
    keeps_failures_local [OF local_step_ForwardStdout, unfolded keeps_failures_def, rule_format]
  have "w_cache (snd (run_state (CompileAndStore sys compiler rk invoc why) w)) (slot_ExitStatus k) =
      w_cache ?w1 (slot_ExitStatus k)"
    using bad assms(2)
    by (auto simp: CompileAndStore_def Deterministic_def kSignalStatusBase_def Let_def run_bind run_give run_read_file
        split: option.split simp del: run_state_bind)
  then show False using assms(1) by simp
qed

definition demo_fail_sys :: sys where
  "demo_fail_sys = demo_sys\<lparr>sy_exec := (\<lambda>program args env files. \<lparr>ch_pipe = True, ch_fork = True, ch_found = True,
     ch_reads = [''x.c:1: error''], ch_eintr = 0, ch_end = Exited 1, ch_stdout = [],
     ch_files = files(''./.jig7.d'' \<mapsto> ''x.o: x.c'')\<rparr>)\<rparr>"

theorem remembered_failures_witness:
  "rr_status (ob_run (fst (run_state (RunObserved demo_fail_sys ''cc'' demo_call) demo_world))) < 128"
proof -
  let ?o = "run_state (RunObserved demo_fail_sys ''cc'' demo_call) demo_world"
  let ?k = "m_result_key (observed_manifest demo_fail_sys (snd ?o) ''k'' demo_call (fst ?o))"
  have "w_cache (snd (run_state (CompileAndStore demo_fail_sys ''cc'' ''k'' demo_call ''new-key'') demo_world))
      (slot_ExitStatus ?k) \<noteq> w_cache demo_world (slot_ExitStatus ?k)"
    by code_simp
  from remembered_failures [OF this refl] show ?thesis by blast
qed

section \<open>What is cacheable\<close>

definition parse_inv :: "parsing \<Rightarrow> bool" where
  "parse_inv p \<longleftrightarrow> \<not> in_link_one (pa_inv p) \<and> \<not> in_link (pa_inv p) \<and> \<not> in_to_stdout (pa_inv p) \<and>
     (pa_sources p > 0 \<longrightarrow> IsSourceFile (in_source (pa_inv p))) \<and> list_all IsObjectInput (in_inputs (pa_inv p)) \<and>
     (in_query (pa_inv p) \<longrightarrow> \<not> in_cacheable (pa_inv p))"

lemma if_cases: "(b \<Longrightarrow> P x) \<Longrightarrow> (\<not> b \<Longrightarrow> P y) \<Longrightarrow> P (if b then x else y)"
  by simp

text \<open>The fields the classification depends on, which the option takers leave alone.\<close>

definition same_class :: "invocation \<Rightarrow> invocation \<Rightarrow> bool" where
  "same_class i i' \<longleftrightarrow> in_link_one i' = in_link_one i \<and> in_link i' = in_link i \<and> in_to_stdout i' = in_to_stdout i \<and>
     in_source i' = in_source i \<and> in_inputs i' = in_inputs i \<and> in_query i' = in_query i \<and>
     in_cacheable i' = in_cacheable i"

lemma parse_inv_same_class: "parse_inv p \<Longrightarrow> same_class (pa_inv p) i \<Longrightarrow> parse_inv (p\<lparr>pa_inv := i\<rparr>)"
  by (simp add: parse_inv_def same_class_def)

lemma TakeDepfileOption_class: "pred_option (\<lambda>z. same_class i (snd z)) (TakeDepfileOption arg rest i)"
  unfolding TakeDepfileOption_def
  by (intro if_cases [where P = "pred_option (\<lambda>z. same_class i (snd z))"])
    (simp_all add: same_class_def wants_depfile_def)

lemma TakePchOption_class: "pred_option (\<lambda>z. same_class i (snd z)) (TakePchOption arg rest i)"
  unfolding TakePchOption_def Let_def
  by (intro if_cases [where P = "pred_option (\<lambda>z. same_class i (snd z))"]) (simp_all add: same_class_def)

lemma parse_word_inv: "parse_inv p \<Longrightarrow> parse_inv (snd (parse_word arg rest p))"
proof (cases "TakePchOption arg rest (pa_inv p)")
  case None
  assume p: "parse_inv p"
  show ?thesis
    unfolding parse_word_def Let_def None option.case
    by (rule if_cases [where P = "\<lambda>z. parse_inv (snd z)"])+ (use p in \<open>simp_all add: parse_inv_def\<close>)
next
  case (Some x)
  assume p: "parse_inv p"
  obtain rest' i' where x: "x = (rest', i')" by fastforce
  have "parse_inv (p\<lparr>pa_inv := i'\<rparr>)"
    using TakePchOption_class [of "pa_inv p" arg rest] by (intro parse_inv_same_class [OF p]) (simp add: Some x)
  then show ?thesis
    unfolding parse_word_def Let_def Some x option.case prod.case
    by (intro if_cases [where P = "\<lambda>z. parse_inv (snd z)"]) (use p in \<open>simp_all add: parse_inv_def\<close>)
qed

lemma parse_words_inv: "parse_inv p \<Longrightarrow> parse_inv (parse_words args p)"
proof (induction args p rule: parse_words.induct)
  case (2 arg rest p)
  show ?case
  proof (cases "TakeDepfileOption arg rest (pa_inv p)")
    case None
    then show ?thesis using 2 by (simp add: parse_word_inv)
  next
    case (Some x)
    obtain rest' i where x: "x = (rest', i)" by fastforce
    have "parse_inv (p\<lparr>pa_inv := i\<rparr>)"
      using TakeDepfileOption_class [of "pa_inv p" arg rest]
      by (intro parse_inv_same_class [OF "2.prems"]) (simp add: Some x)
    then show ?thesis using "2.IH"(2) [OF Some x [symmetric]] Some x by simp
  qed
qed simp

definition one_primary :: "invocation \<Rightarrow> bool" where
  "one_primary i \<longleftrightarrow> \<not> in_query i \<and>
    (if in_compile_only i then \<not> in_link_one i \<and> \<not> in_link i \<and> IsSourceFile (in_source i)
     else in_link_one i \<noteq> in_link i \<and> (in_link_one i \<longrightarrow> IsSourceFile (in_source i)) \<and>
       (in_link i \<longrightarrow> in_inputs i \<noteq> [] \<and> list_all IsObjectInput (in_inputs i)))"

lemma default_depfile_class:
  "in_cacheable (default_depfile i) = in_cacheable i" "one_primary (default_depfile i) = one_primary i"
  by (simp_all add: default_depfile_def one_primary_def)

lemma classify_compile_primary:
  assumes "in_cacheable (classify_compile env pid i sources stop)" "in_compile_only i"
    and "\<not> in_link_one i" "\<not> in_link i" "in_query i \<longrightarrow> \<not> in_cacheable i" "sources > 0 \<longrightarrow> IsSourceFile (in_source i)"
  shows "one_primary (classify_compile env pid i sources stop)"
proof -
  have "\<not> IsSourceFile ''/dev/null''" by code_simp
  moreover have "in_cacheable i" "sources = 1"
    using assms(1) by (simp_all add: classify_compile_def Let_def split: if_split_asm)
  ultimately have "in_source i \<noteq> ''/dev/null''" "\<not> in_query i" "IsSourceFile (in_source i)" "sources = 1"
    using assms by auto
  then show ?thesis using assms(2,3,4) by (simp add: one_primary_def classify_compile_def Let_def)
qed

lemma classify_link_primary:
  assumes "in_cacheable (classify_link i sources objects)" "\<not> in_compile_only i"
    and "in_query i \<longrightarrow> \<not> in_cacheable i" "sources > 0 \<longrightarrow> IsSourceFile (in_source i)" "list_all IsObjectInput (in_inputs i)"
  shows "one_primary (classify_link i sources objects)"
  using assms by (cases objects) (simp_all add: one_primary_def classify_link_def Let_def split: if_split_asm)

text \<open>A cacheable command line has exactly one primary input, and is what the cache takes it for: a
  compilation of one source file, a link of one source file, or a link of objects only; a run that only
  asks the compiler something is never cacheable.\<close>

theorem cacheable_one_primary:
  assumes "in_cacheable (ParseInvocation env pid args)"
  shows "one_primary (ParseInvocation env pid args)"
proof -
  let ?p = "parse_words args \<lparr>pa_inv = empty_invocation\<lparr>in_args := args\<rparr>, pa_objects = False, pa_sources = 0, pa_stop = None\<rparr>"
  have inv: "parse_inv ?p" by (rule parse_words_inv) (simp add: parse_inv_def empty_invocation_def)
  show ?thesis
    using assms inv unfolding ParseInvocation_def Classify_def Let_def default_depfile_class parse_inv_def
    by (cases "in_compile_only (pa_inv ?p)")
      (auto simp: cacheable_output_def intro!: classify_compile_primary classify_link_primary)
qed

theorem cacheable_one_primary_witness:
  "IsSourceFile (in_source (ParseInvocation Map.empty 7 [''-c'', ''x.c'', ''-MD'', ''-o'', ''x.o'']))"
proof -
  let ?i = "ParseInvocation Map.empty 7 [''-c'', ''x.c'', ''-MD'', ''-o'', ''x.o'']"
  have "in_cacheable ?i" "in_compile_only ?i" by code_simp+
  then show ?thesis using cacheable_one_primary [of Map.empty 7 "[''-c'', ''x.c'', ''-MD'', ''-o'', ''x.o'']"]
    by (simp add: one_primary_def)
qed

end
