(* ===== verification/Rustc_Mode.thy ===== *)
theory Rustc_Mode
  imports Dir_Mode Cc_Replay
begin

text \<open>
  The \<open>rustc\<close> mode (\<open>rustc_mode.cc\<close>): the command line, the dependency information of \<open>rustc\<close>, the blob that
  holds the artifacts of a crate, and the mode itself over the state of a restore (files with permissions).
  The lemmas show what makes a call cacheable, that the hashes cargo puts into file names do not reach the
  key, that artifacts come back under the names of the restoring call, and that what one call compiled
  another one replays.
\<close>

section \<open>The command line\<close>

definition kPermissionBits :: nat where
  "kPermissionBits = 511"

definition kTwoTokenOptions :: "string list" where
  "kTwoTokenOptions = [''-C'', ''--cfg'', ''--check-cfg'', ''--cap-lints'', ''--edition'', ''--target'', ''--crate-type'',
     ''-Z'', ''-W'', ''-A'', ''-D'', ''-F'', ''--error-format'', ''--json'', ''--diagnostic-width'', ''--remap-path-prefix'', ''-l'']"

record rust_invocation =
  ri_args :: "string list"
  ri_key_args :: "string list"
  ri_externs :: "string list"
  ri_source :: string
  ri_crate_name :: string
  ri_out_dir :: string
  ri_sysroot :: string
  ri_extra_filename :: string
  ri_links :: bool
  ri_has_crate_type :: bool
  ri_cacheable :: bool
  ri_query :: bool
  ri_has_dep_info :: bool

definition empty_rust_invocation :: rust_invocation where
  "empty_rust_invocation = \<lparr>ri_args = [], ri_key_args = [], ri_externs = [], ri_source = [], ri_crate_name = [], ri_out_dir = [],
     ri_sysroot = [], ri_extra_filename = [], ri_links = False, ri_has_crate_type = False, ri_cacheable = True,
     ri_query = False, ri_has_dep_info = False\<rparr>"

text \<open>The value of a named option, and the words after it.\<close>

definition take_option :: "string \<Rightarrow> string \<Rightarrow> string list \<Rightarrow> (string \<times> string list) option" where
  "take_option flag arg rest =
     (if arg = flag \<and> rest \<noteq> [] then Some (hd rest, tl rest)
      else if length arg > length flag \<and> starts_with arg flag \<and> arg ! length flag = CHR ''=''
      then Some (drop (length flag + 1) arg, rest)
      else None)"

definition TakeNamedOption :: "string \<Rightarrow> string list \<Rightarrow> rust_invocation \<Rightarrow> (string list \<times> rust_invocation) option" where
  "TakeNamedOption arg rest rinv =
     (case take_option ''--out-dir'' arg rest of Some (value, rest) \<Rightarrow> Some (rest, rinv\<lparr>ri_out_dir := value\<rparr>)
      | None \<Rightarrow>
     (case take_option ''--sysroot'' arg rest of Some (value, rest) \<Rightarrow>
        Some (rest, rinv\<lparr>ri_key_args := ri_key_args rinv @ [''--sysroot='' @ value], ri_sysroot := value\<rparr>)
      | None \<Rightarrow>
     (case take_option ''--crate-name'' arg rest of Some (value, rest) \<Rightarrow>
        Some (rest, rinv\<lparr>ri_key_args := ri_key_args rinv @ [''--crate-name='' @ value], ri_crate_name := value\<rparr>)
      | None \<Rightarrow>
     (case take_option ''--extern'' arg rest of Some (value, rest) \<Rightarrow>
        (let rinv = (case find_str ''='' value of
             Some equals \<Rightarrow> rinv\<lparr>ri_externs := ri_externs rinv @ [drop (equals + 1) value]\<rparr> | None \<Rightarrow> rinv)
         in Some (rest, rinv\<lparr>ri_key_args := ri_key_args rinv @ [''--extern='' @ value]\<rparr>))
      | None \<Rightarrow>
     (case take_option ''--emit'' arg rest of Some (value, rest) \<Rightarrow>
        Some (rest, rinv\<lparr>ri_has_dep_info := ri_has_dep_info rinv \<or> contains value ''dep-info'',
          ri_key_args := ri_key_args rinv @ [''--emit='' @ value]\<rparr>)
      | None \<Rightarrow>
     (case take_option ''-L'' arg rest of Some (_, rest) \<Rightarrow> Some (rest, rinv)
      | None \<Rightarrow> None))))))"

text \<open>An option joined with its value, and the words after it.\<close>

definition join_option :: "string \<Rightarrow> string list \<Rightarrow> string \<times> string list" where
  "join_option arg rest =
     (if arg \<in> set kTwoTokenOptions \<and> rest \<noteq> [] then (arg @ ''='' @ hd rest, tl rest)
      else if starts_with arg ''-C'' \<and> \<not> starts_with arg ''-C='' then (take 2 arg @ ''='' @ drop 2 arg, rest)
      else (arg, rest))"

definition linking_types :: "string list" where
  "linking_types = [''--crate-type=bin'', ''--crate-type=proc-macro'', ''--crate-type=cdylib'', ''--crate-type=dylib'']"

definition codegen_option :: "string \<Rightarrow> rust_invocation \<Rightarrow> rust_invocation" where
  "codegen_option full rinv =
     (if starts_with full ''-C=incremental='' then rinv\<lparr>ri_cacheable := False\<rparr>
      else if starts_with full ''-C=extra-filename='' then rinv\<lparr>ri_extra_filename := drop 18 full\<rparr>
      else if \<not> starts_with full ''-C=metadata=''
      then rinv\<lparr>ri_links := ri_links rinv \<or> full \<in> set linking_types,
             ri_has_crate_type := ri_has_crate_type rinv \<or> starts_with full ''--crate-type='',
             ri_key_args := ri_key_args rinv @ [full]\<rparr>
      else rinv)"

definition TakeCodegenOption :: "string \<Rightarrow> string list \<Rightarrow> rust_invocation \<Rightarrow> string list \<times> rust_invocation" where
  "TakeCodegenOption arg rest rinv = (case join_option arg rest of (full, rest) \<Rightarrow> (rest, codegen_option full rinv))"

definition is_probe :: "string \<Rightarrow> bool" where
  "is_probe arg \<longleftrightarrow> arg = ''--print'' \<or> starts_with arg ''--print='' \<or> arg = ''-'' \<or> arg = ''-vV'' \<or> arg = ''--version''"

definition rust_word :: "string \<Rightarrow> string list \<Rightarrow> rust_invocation \<times> nat \<Rightarrow> string list \<times> rust_invocation \<times> nat" where
  "rust_word arg rest = (\<lambda>(rinv, sources).
     case TakeNamedOption arg rest rinv of
       Some (rest, rinv) \<Rightarrow> (rest, rinv, sources)
     | None \<Rightarrow>
         if is_probe arg then (rest, rinv\<lparr>ri_query := True\<rparr>, sources)
         else if arg = ''-o'' then (rest, rinv\<lparr>ri_cacheable := False\<rparr>, sources)
         else if \<not> starts_with arg ''-'' \<and> ends_with arg ''.rs'' then (rest, rinv\<lparr>ri_source := arg\<rparr>, sources + 1)
         else (case TakeCodegenOption arg rest rinv of (rest, rinv) \<Rightarrow> (rest, rinv, sources)))"

lemma take_option_shorter: "take_option flag arg rest = Some (v, rest') \<Longrightarrow> length rest' \<le> length rest"
  by (auto simp: take_option_def split: if_splits)

lemma rust_word_shorter: "rust_word arg rest p = (rest', p') \<Longrightarrow> length rest' \<le> length rest"
  by (auto simp: rust_word_def TakeNamedOption_def TakeCodegenOption_def join_option_def Let_def
      split: if_splits option.splits prod.splits dest!: take_option_shorter)

function rust_words :: "string list \<Rightarrow> rust_invocation \<times> nat \<Rightarrow> rust_invocation \<times> nat" where
  "rust_words [] p = p"
| "rust_words (arg # rest) p = (case rust_word arg rest p of (rest, p) \<Rightarrow> rust_words rest p)"
  by pat_completeness auto
termination rust_words
  by (relation "measure (\<lambda>(args, _). length args)")
    (auto simp: less_Suc_eq_le split: prod.split dest: rust_word_shorter)

definition ParseRustInvocation :: "string list \<Rightarrow> rust_invocation" where
  "ParseRustInvocation args =
     (case rust_words args (empty_rust_invocation\<lparr>ri_args := args\<rparr>, 0) of
        (rinv, sources) \<Rightarrow>
          let rinv = rinv\<lparr>ri_links := ri_links rinv \<or> \<not> ri_has_crate_type rinv\<rparr>
          in if ri_query rinv \<or> ri_links rinv \<or> sources \<noteq> 1 \<or> ri_out_dir rinv = [] \<or> \<not> ri_has_dep_info rinv
             then rinv\<lparr>ri_cacheable := False\<rparr> else rinv)"

section \<open>Dependency information and artifacts\<close>

record dep_info =
  di_outputs :: "string list"
  di_inputs :: "string list"

definition absolute :: "sys \<Rightarrow> string \<Rightarrow> string" where
  "absolute sys path = lexically_normal (if is_absolute path then path else path_append (sy_cwd sys) path)"

definition dep_line :: "sys \<Rightarrow> dep_info \<Rightarrow> string \<Rightarrow> dep_info" where
  "dep_line sys info line =
     (if starts_with line ''#'' then info
      else case find_str '': '' line of
        None \<Rightarrow> info
      | Some colon \<Rightarrow>
          let info = info\<lparr>di_outputs := di_outputs info @ [take colon line]\<rparr>
          in if di_inputs info = [] then info\<lparr>di_inputs := map (absolute sys) (ParseDepfile line)\<rparr> else info)"

definition ParseDepInfo :: "sys \<Rightarrow> string \<Rightarrow> dep_info" where
  "ParseDepInfo sys s = foldl (dep_line sys) \<lparr>di_outputs = [], di_inputs = []\<rparr> (Split s CHR 0x0A False)"

definition pack_file :: "string \<Rightarrow> nat \<Rightarrow> string \<Rightarrow> string \<Rightarrow> string" where
  "pack_file name mode stem data =
     ReplaceAll name stem ''@'' @ '' '' @ to_base 8 (mode AND kPermissionBits) @ '' '' @ to_string (length data) @ [CHR 0x0A] @ data"

definition PackFiles :: "file_map \<Rightarrow> (string \<Rightarrow> nat) \<Rightarrow> string list \<Rightarrow> string \<Rightarrow> string" where
  "PackFiles files modes paths stem =
     concat (map (\<lambda>path. case files path of None \<Rightarrow> [] | Some data \<Rightarrow> pack_file (path_filename path) (modes path) stem data) paths)"

type_synonym 'a trun = "(tree_state, 'a) state"

definition lift :: "'a run \<Rightarrow> 'a trun" where
  "lift m = State (in_world m)"

definition permissions :: "string \<Rightarrow> nat \<Rightarrow> unit trun" where
  "permissions path mode = State (\<lambda>t. ((), t\<lparr>ts_modes := (ts_modes t)(path \<mapsto> mode mod 2 ^ 32)\<rparr>))"

text \<open>The first file of a blob: its name, its permissions, its bytes, and what follows.\<close>

definition unpack_head :: "string \<Rightarrow> (string \<times> nat \<times> string \<times> string) option" where
  "unpack_head blob =
     (case find_str [CHR 0x0A] blob of
        None \<Rightarrow> None
      | Some newline \<Rightarrow>
          let words = Split (take newline blob) CHR '' '' False in
          if length words \<noteq> 3 then None
          else case ParseUint (words ! 1) 8 of
            None \<Rightarrow> None
          | Some mode \<Rightarrow>
              (case ParseUint (words ! 2) 10 of
                 None \<Rightarrow> None
               | Some n \<Rightarrow>
                   if n > length blob - (newline + 1) then None
                   else Some (words ! 0, mode, take n (drop (newline + 1) blob), drop (newline + 1 + n) blob)))"

lemma unpack_head_shorter: "unpack_head blob = Some (name, mode, data, rest) \<Longrightarrow> blob \<noteq> [] \<Longrightarrow> length rest < length blob"
  by (auto simp: unpack_head_def Let_def split: option.splits if_splits)

function UnpackFiles :: "sys \<Rightarrow> string \<Rightarrow> string \<Rightarrow> string \<Rightarrow> bool trun" where
  "UnpackFiles sys dir stem blob =
     (if blob = [] then State_Monad.return True
      else case unpack_head blob of
        None \<Rightarrow> State_Monad.return False
      | Some (name, mode, data, rest) \<Rightarrow> do {
          let out = path_append dir (ReplaceAll name ''@'' stem);
          ok \<leftarrow> lift (write_file sys out data);
          if \<not> ok then State_Monad.return False
          else do { permissions out mode; UnpackFiles sys dir stem rest }
        })"
  by pat_completeness auto
termination UnpackFiles
  by (relation "measure (\<lambda>(_, _, _, blob). length blob)") (auto intro: unpack_head_shorter)

declare UnpackFiles.simps [simp del]

section \<open>The mode\<close>

text \<open>What the file system tells beyond \<open>sys\<close>: the permissions \<open>rustc\<close> gives its outputs, and \<open>weakly_canonical\<close>.\<close>

record rust_host =
  rh_modes :: "string \<Rightarrow> nat"
  rh_weakly_canonical :: "string \<Rightarrow> string"

definition rust_outcome :: "rust_invocation \<Rightarrow> bool \<Rightarrow> outcome" where
  "rust_outcome rinv have_source =
     (if ri_query rinv then KPlainQuery
      else if \<not> ri_cacheable rinv then (if ri_links rinv then KPlainLink else KPlainCompile)
      else if \<not> have_source then KPlainNoSource
      else KPlainNoSocket)"

definition RunUncached_rust :: "sys \<Rightarrow> string \<Rightarrow> string \<Rightarrow> rust_invocation \<Rightarrow> bool \<Rightarrow> string \<Rightarrow> int run" where
  "RunUncached_rust sys socket_path rustc rinv have_source label = do {
     let body = Run sys rustc (ri_args rinv) KInherit;
     r \<leftarrow> (if ri_source rinv \<noteq> [] then with_slot sys socket_path body else body);
     log_outcome sys ''rustc'' (rust_outcome rinv have_source) label;
     give (rr_status r)
   }"

definition is_stdlib :: "string \<Rightarrow> bool" where
  "is_stdlib name \<longleftrightarrow> (starts_with name ''libstd-'' \<or> starts_with name ''libcore-'') \<and> ends_with name ''.rlib''"

definition stdlib_files :: "sys \<Rightarrow> rust_host \<Rightarrow> string \<Rightarrow> string list" where
  "stdlib_files sys h root =
     (let rustlib = path_append (path_append root ''lib'') ''rustlib'' in
      concat (map (\<lambda>(triple, _).
        let dir = path_append (path_append rustlib triple) ''lib'' in
        map (\<lambda>(name, _). rh_weakly_canonical h (path_append dir name))
          (filter (\<lambda>(name, _). is_stdlib name) (sy_list sys dir))) (sy_list sys rustlib)))"

definition StdlibIds :: "sys \<Rightarrow> rust_host \<Rightarrow> string \<Rightarrow> string \<Rightarrow> string run" where
  "StdlibIds sys h rustc sysroot = do {
     found \<leftarrow> gets (\<lambda>w. sy_canonical sys (OnPath (path_exists sys w) (w_env w) rustc));
     (case found of
        None \<Rightarrow> give ''?''
      | Some real \<Rightarrow> do {
          let roots = parent_path (parent_path real) # (if sysroot \<noteq> [] then [sysroot] else []);
          let libs = sort (concat (map (stdlib_files sys h) roots));
          prefetch sys libs;
          tool_ids sys libs
        })
   }"

definition key_variables :: "string list" where
  "key_variables = [''CARGO_PKG_NAME'', ''CARGO_PKG_VERSION'', ''CARGO_CFG_TARGET_FEATURE'', ''RUSTFLAGS'', ''CARGO_ENCODED_RUSTFLAGS'']"

definition rust_key_fields :: "sys \<Rightarrow> store \<Rightarrow> env \<Rightarrow> string \<Rightarrow> string \<Rightarrow> rust_invocation \<Rightarrow> string list \<Rightarrow> string \<Rightarrow> string list" where
  "rust_key_fields sys st env tool_id stdlib rinv extern_ids source_bytes =
     [''rs-schema=7'', ''rustc='' @ tool_id, ''stdlib='' @ stdlib, ''cwd='' @ Key st (sy_cwd sys),
      ''src='' @ Key st (ri_source rinv)] @
     map (Key st) (ri_key_args rinv) @
     map (\<lambda>i. ''extern:'' @ i) extern_ids @
     map (\<lambda>var. var @ ''='' @ Env env var []) key_variables @
     [source_bytes]"

fun extern_ids :: "sys \<Rightarrow> string list \<Rightarrow> string list run" where
  "extern_ids sys [] = give []"
| "extern_ids sys (rlib # rlibs) = do {
     identity \<leftarrow> input_id sys rlib;
     ids \<leftarrow> extern_ids sys rlibs;
     give ((case identity of None \<Rightarrow> ''?'' | Some i \<Rightarrow> i) # ids)
   }"

definition rust_request_key :: "sys \<Rightarrow> rust_host \<Rightarrow> string \<Rightarrow> rust_invocation \<Rightarrow> string \<Rightarrow> string run" where
  "rust_request_key sys h rustc rinv source_bytes = do {
     tool_id \<leftarrow> gets (\<lambda>w. ToolId (w_store w) (sy_canonical sys) (OnPath (path_exists sys w) (w_env w) rustc));
     stdlib \<leftarrow> StdlibIds sys h rustc (ri_sysroot rinv);
     ids \<leftarrow> extern_ids sys (ri_externs rinv);
     gets (\<lambda>w. RequestKey KRustc (Finish (sy_blake3 sys)
       (foldl Field [] (rust_key_fields sys (w_store w) (w_env w) tool_id stdlib rinv ids source_bytes))))
   }"

definition rust_replay :: "sys \<Rightarrow> rust_invocation \<Rightarrow> string \<Rightarrow> string \<Rightarrow> bool trun" where
  "rust_replay sys rinv label result_key = do {
     blob \<leftarrow> lift (cache_get (slot_Object result_key));
     ok \<leftarrow> (case blob of None \<Rightarrow> State_Monad.return False | Some b \<Rightarrow> UnpackFiles sys (ri_out_dir rinv) (ri_extra_filename rinv) b);
     if \<not> ok then State_Monad.return False
     else lift (do {
       err \<leftarrow> cache_get (slot_Stderr result_key);
       print_err (case err of None \<Rightarrow> [] | Some s \<Rightarrow> s);
       log_outcome sys ''rustc'' KHit label;
       give True
     })
   }"

definition rust_store :: "sys \<Rightarrow> rust_host \<Rightarrow> rust_invocation \<Rightarrow> string \<Rightarrow> run_result \<Rightarrow> string \<Rightarrow> unit run" where
  "rust_store sys h rinv request_key r dep_text = do {
     let info = ParseDepInfo sys dep_text;
     m \<leftarrow> build_manifest sys request_key (di_inputs info) (absolute sys (ri_source rinv)) [];
     cache_put (slot_Manifest request_key) (m_text m);
     files \<leftarrow> gets w_files;
     cache_put (slot_Object (m_result_key m)) (PackFiles files (rh_modes h) (di_outputs info) (ri_extra_filename rinv));
     cache_put (slot_Stderr (m_result_key m)) (rr_stderr r)
   }"

definition dep_file :: "rust_invocation \<Rightarrow> string" where
  "dep_file rinv = path_append (ri_out_dir rinv) (ri_crate_name rinv @ ri_extra_filename rinv @ ''.d'')"

definition rust_compile :: "sys \<Rightarrow> rust_host \<Rightarrow> string \<Rightarrow> rust_invocation \<Rightarrow> string \<Rightarrow> string \<Rightarrow> int run" where
  "rust_compile sys h rustc rinv request_key missed = do {
     r \<leftarrow> with_slot sys [] (Run sys rustc (ri_args rinv) KCapture);
     print_err (rr_stderr r);
     if rr_status r \<noteq> 0 then do { log_outcome sys ''rustc'' KMissFail missed; give (rr_status r) }
     else do {
       dep_text \<leftarrow> read_file (dep_file rinv);
       (case dep_text of
          None \<Rightarrow> do { log_outcome sys ''rustc'' KMissUnstored missed; give 0 }
        | Some d \<Rightarrow> do {
            rust_store sys h rinv request_key r d;
            log_outcome sys ''rustc'' KMissStored missed;
            give 0
          })
     }
   }"

definition rust_label :: "rust_invocation \<Rightarrow> string" where
  "rust_label rinv = (if ri_crate_name rinv = [] then ri_source rinv else ri_crate_name rinv @ ri_extra_filename rinv)"

text \<open>Whether the artifacts were replayed, and otherwise how far the lookup got.\<close>

definition rust_lookup :: "sys \<Rightarrow> rust_invocation \<Rightarrow> string \<Rightarrow> (bool \<times> string) trun" where
  "rust_lookup sys rinv request_key = do {
     result_key \<leftarrow> lift (find_result sys request_key);
     (case result_key of
        Inl err \<Rightarrow> State_Monad.return (False, err)
      | Inr key \<Rightarrow> do {
          hit \<leftarrow> rust_replay sys rinv (rust_label rinv) key;
          State_Monad.return (hit, ''object-gone'')
        })
   }"

definition rust_cached :: "sys \<Rightarrow> rust_host \<Rightarrow> string \<Rightarrow> rust_invocation \<Rightarrow> string \<Rightarrow> int trun" where
  "rust_cached sys h rustc rinv source_bytes = do {
     request_key \<leftarrow> lift (rust_request_key sys h rustc rinv source_bytes);
     (hit, why) \<leftarrow> rust_lookup sys rinv request_key;
     if hit then State_Monad.return 0 else lift (rust_compile sys h rustc rinv request_key (rust_label rinv @ '' '' @ why))
   }"

definition RunRustcMode :: "sys \<Rightarrow> rust_host \<Rightarrow> string list \<Rightarrow> string \<Rightarrow> int trun" where
  "RunRustcMode sys h args socket_path =
     (case args of
        [] \<Rightarrow> lift (do { print_err (''rustcwrap: usage: rustcwrap <rustc> args...'' @ [CHR 0x0A]); give 1 })
      | rustc # args \<Rightarrow> do {
          let rinv = ParseRustInvocation args;
          source_bytes \<leftarrow> (if ri_cacheable rinv then lift (read_file (ri_source rinv)) else State_Monad.return None);
          (case source_bytes of
             None \<Rightarrow> lift (RunUncached_rust sys socket_path rustc rinv False (rust_label rinv))
           | Some bytes \<Rightarrow> do {
               up \<leftarrow> lift (cache_connect sys socket_path);
               if up then rust_cached sys h rustc rinv bytes
               else lift (RunUncached_rust sys socket_path rustc rinv True (rust_label rinv))
             })
        })"

section \<open>Artifacts come back\<close>

text \<open>Taking the stem out and putting another one in is replacing the one by the other.\<close>

lemma replace_ref_empty: "replace_ref [] new s = s"
  by (induction s) simp_all

lemma replace_ref_rename:
  "z \<notin> set s \<Longrightarrow> replace_ref [z] b (replace_ref a [z] s) = replace_ref a b s"
proof (induction a b s rule: replace_ref.induct)
  case (2 a b c cs)
  have "z \<notin> set (drop (length a - 1) cs)" using 2(3) by (auto dest: in_set_dropD)
  then show ?case using 2 by auto
qed simp

lemma ReplaceAll_rename:
  "CHR ''@'' \<notin> set name \<Longrightarrow> ReplaceAll (ReplaceAll name stem ''@'') ''@'' stem2 = ReplaceAll name stem stem2"
  by (simp add: ReplaceAll_is_replace_ref replace_ref_rename)

lemma set_replace_ref: "set (replace_ref a b s) \<subseteq> set s \<union> set b"
  by (induction a b s rule: replace_ref.induct) (auto dest: in_set_dropD)

lemma replace_ref_nonempty: "s \<noteq> [] \<Longrightarrow> b \<noteq> [] \<Longrightarrow> replace_ref a b s \<noteq> []"
  by (cases s) simp_all

text \<open>A file name that fits into the header of a packed file.\<close>

definition packable :: "string \<Rightarrow> bool" where
  "packable name \<longleftrightarrow> name \<noteq> [] \<and> set name \<inter> {CHR '' '', CHR 0x0A, CHR ''@''} = {}"

lemma digits_plain: "2 \<le> b \<Longrightarrow> b \<le> 36 \<Longrightarrow> CHR '' '' \<notin> set (to_base b n) \<and> CHR 0x0A \<notin> set (to_base b n)"
  using to_base_digits [of b _ n] digit_value_blank by (metis option.distinct(1))

lemma unpack_head_pack:
  assumes "packable name" "length data < 2 ^ 64"
  shows "unpack_head (pack_file name mode stem data @ rest) = Some (ReplaceAll name stem ''@'', mode mod 512, data, rest)"
proof -
  let ?name = "ReplaceAll name stem ''@''" and ?mode = "to_base 8 (mode mod 512)" and ?len = "to_string (length data)"
  let ?head = "?name @ CHR '' '' # ?mode @ CHR '' '' # ?len"
  have name: "?name \<noteq> []" "CHR '' '' \<notin> set ?name" "CHR 0x0A \<notin> set ?name"
    using assms(1) set_replace_ref [of stem "''@''" name] by (auto simp: packable_def ReplaceAll_is_replace_ref replace_ref_nonempty)
  have words: "CHR '' '' \<notin> set ?mode" "CHR '' '' \<notin> set ?len" "CHR 0x0A \<notin> set ?mode" "CHR 0x0A \<notin> set ?len"
    using digits_plain by simp_all
  have blob: "pack_file name mode stem data @ rest = ?head @ CHR 0x0A # data @ rest"
    using perm_bits [of mode] by (simp add: pack_file_def kPermissionBits_def kPermBits_def)
  have nl: "find_str [CHR 0x0A] (?head @ CHR 0x0A # data @ rest) = Some (length ?head)"
    using name words by (intro find_str_char) simp
  have sp: "Split ?head CHR '' '' False = [?name, ?mode, ?len]"
    using name words by (simp add: Split_sep Split_field)
  have "mode mod 512 < 2 ^ 64" by (rule less_trans [of _ 512]) simp_all
  then have nums: "ParseUint ?mode 8 = Some (mode mod 512)" "ParseUint ?len 10 = Some (length data)"
    using assms(2) by (simp_all add: ParseUint_digits)
  define line where "line = ?head"
  show ?thesis using nl sp nums unfolding blob unpack_head_def line_def [symmetric] by (simp add: Let_def)
qed

text \<open>What a restore leaves of the world besides files and permissions.\<close>

definition same_daemon :: "tree_state \<Rightarrow> tree_state \<Rightarrow> bool" where
  "same_daemon t t' \<longleftrightarrow> w_store (ts_world t') = w_store (ts_world t) \<and> w_cache (ts_world t') = w_cache (ts_world t) \<and>
     w_open (ts_world t') = w_open (ts_world t) \<and> w_faults (ts_world t') = w_faults (ts_world t) \<and>
     w_env (ts_world t') = w_env (ts_world t) \<and> w_stderr (ts_world t') = w_stderr (ts_world t)"

lemma run_lift [run_simps]: "run_state (lift m) t =
    (fst (run_state m (ts_world t)), t\<lparr>ts_world := snd (run_state m (ts_world t))\<rparr>)"
  by (simp add: lift_def in_world_def case_prod_beta)

lemma run_permissions [run_simps]:
  "run_state (permissions path mode) t = ((), t\<lparr>ts_modes := (ts_modes t)(path \<mapsto> mode mod 2 ^ 32)\<rparr>)"
  by (simp add: permissions_def)

lemma trun_bind [run_simps]:
  "run_state (State_Monad.bind m f) (t :: tree_state) = run_state (f (fst (run_state m t))) (snd (run_state m t))"
  by (simp add: case_prod_beta)

lemma UnpackFiles_step:
  assumes "packable name" "length data < 2 ^ 64" "plan_ok (sy_write sys out) data"
    and out_def: "out = path_append dir (ReplaceAll name stem stem2)"
  obtains t1 where "run_state (UnpackFiles sys dir stem2 (pack_file name mode stem data @ rest)) t =
      run_state (UnpackFiles sys dir stem2 rest) t1" "same_daemon t t1"
    "\<forall>q. plain q \<longrightarrow> w_files (ts_world t1) q = (if q = out then Some data else w_files (ts_world t) q)"
    "ts_modes t1 = (ts_modes t)(out \<mapsto> mode mod 512)"
proof -
  let ?wr = "WriteFile (sy_write sys out) (sy_pid sys) (w_files (ts_world t)) out data"
  let ?t1 = "t\<lparr>ts_world := (ts_world t)\<lparr>w_files := last (snd ?wr)\<rparr>, ts_modes := (ts_modes t)(out \<mapsto> mode mod 512)\<rparr>"
  have ok: "fst ?wr" using assms(3) by (simp add: WriteFile_ok)
  have "mode mod 512 < 2 ^ 32" by (rule less_trans [of _ 512]) simp_all
  then have mod: "mode mod 512 mod 2 ^ 32 = mode mod 512" by (rule mod_less)
  have ne: "pack_file name mode stem data @ rest \<noteq> []" by (simp add: pack_file_def)
  have dest: "path_append dir (ReplaceAll (ReplaceAll name stem ''@'') ''@'' stem2) = out"
    using assms(1) unfolding out_def packable_def by (subst ReplaceAll_rename) auto
  have "run_state (UnpackFiles sys dir stem2 (pack_file name mode stem data @ rest)) t =
      run_state (UnpackFiles sys dir stem2 rest) ?t1"
    using ok unfolding UnpackFiles.simps [of sys dir stem2 "pack_file name mode stem data @ rest"] if_not_P [OF ne]
      unpack_head_pack [OF assms(1,2)]
    by (simp add: Let_def dest run_simps mod del: run_state_bind)
  moreover have "same_daemon t ?t1" by (simp add: same_daemon_def)
  moreover have "\<forall>q. plain q \<longrightarrow> w_files (ts_world ?t1) q = (if q = out then Some data else w_files (ts_world t) q)"
  proof (intro allI impI)
    fix q
    assume "plain q"
    then show "w_files (ts_world ?t1) q = (if q = out then Some data else w_files (ts_world t) q)"
      using WriteFile_files [OF prod.collapse [symmetric], of "sy_write sys out" "sy_pid sys" "w_files (ts_world t)" out data q]
        ok plain_tmp by auto
  qed
  moreover have "ts_modes ?t1 = (ts_modes t)(out \<mapsto> mode mod 512)" by simp
  ultimately show thesis by (rule that)
qed

lemma same_daemon_trans: "same_daemon t t1 \<Longrightarrow> same_daemon t1 t2 \<Longrightarrow> same_daemon t t2"
  by (simp add: same_daemon_def)

text \<open>The artifacts of a call: name, permissions and bytes.\<close>

definition artifacts :: "file_map \<Rightarrow> (string \<Rightarrow> nat) \<Rightarrow> string list \<Rightarrow> (string \<times> nat \<times> string) list" where
  "artifacts files modes paths = List.map_filter (\<lambda>p. map_option (\<lambda>d. (path_filename p, modes p, d)) (files p)) paths"

lemma PackFiles_artifacts:
  "PackFiles files modes paths stem = concat (map (\<lambda>(name, mode, data). pack_file name mode stem data) (artifacts files modes paths))"
  by (induction paths) (simp_all add: PackFiles_def artifacts_def List.map_filter_simps split: option.split)

text \<open>They can be packed, and there is room for them below a directory under the other stem.\<close>

definition room_for_artifacts :: "sys \<Rightarrow> string \<Rightarrow> string \<Rightarrow> string \<Rightarrow> (string \<times> nat \<times> string) list \<Rightarrow> bool" where
  "room_for_artifacts sys dir stem stem2 items \<longleftrightarrow>
     distinct (map (\<lambda>(name, _). path_append dir (ReplaceAll name stem stem2)) items) \<and>
     list_all (\<lambda>(name, mode, data). packable name \<and> length data < 2 ^ 64 \<and> plain (path_append dir (ReplaceAll name stem stem2)) \<and>
       plan_ok (sy_write sys (path_append dir (ReplaceAll name stem stem2))) data) items"

lemma UnpackFiles_items:
  assumes "room_for_artifacts sys dir stem stem2 items"
  shows "\<exists>t'. run_state (UnpackFiles sys dir stem2 (concat (map (\<lambda>(name, mode, data). pack_file name mode stem data) items))) t = (True, t') \<and>
    same_daemon t t' \<and>
    (\<forall>name mode data. (name, mode, data) \<in> set items \<longrightarrow>
       w_files (ts_world t') (path_append dir (ReplaceAll name stem stem2)) = Some data \<and>
       ts_modes t' (path_append dir (ReplaceAll name stem stem2)) = Some (mode mod 512)) \<and>
    (\<forall>q. plain q \<longrightarrow> q \<notin> (\<lambda>(name, _). path_append dir (ReplaceAll name stem stem2)) ` set items \<longrightarrow>
       w_files (ts_world t') q = w_files (ts_world t) q \<and> ts_modes t' q = ts_modes t q)"
  using assms
proof (induction items arbitrary: t)
  case Nil
  show ?case by (simp add: UnpackFiles.simps same_daemon_def)
next
  case (Cons item items)
  obtain name mode data where item: "item = (name, mode, data)" by (rule prod_cases3)
  let ?dest = "\<lambda>name. path_append dir (ReplaceAll name stem stem2)"
  let ?blob = "concat (map (\<lambda>(name, mode, data). pack_file name mode stem data) items)"
  have one: "packable name" "length data < 2 ^ 64" "plan_ok (sy_write sys (?dest name)) data" "plain (?dest name)"
    and new: "?dest name \<notin> (\<lambda>(name, _). ?dest name) ` set items" and rest: "room_for_artifacts sys dir stem stem2 items"
    using Cons.prems by (simp_all add: room_for_artifacts_def item)
  obtain t1 where t1: "run_state (UnpackFiles sys dir stem2 (pack_file name mode stem data @ ?blob)) t =
      run_state (UnpackFiles sys dir stem2 ?blob) t1" "same_daemon t t1"
    "\<forall>q. plain q \<longrightarrow> w_files (ts_world t1) q = (if q = ?dest name then Some data else w_files (ts_world t) q)"
    "ts_modes t1 = (ts_modes t)(?dest name \<mapsto> mode mod 512)"
    by (rule UnpackFiles_step [OF one(1-3) refl, where mode = mode and rest = ?blob and t = t])
  from Cons.IH [OF rest, of t1] obtain t' where t': "run_state (UnpackFiles sys dir stem2 ?blob) t1 = (True, t')" "same_daemon t1 t'"
    "\<And>name mode data. (name, mode, data) \<in> set items \<Longrightarrow>
       w_files (ts_world t') (?dest name) = Some data \<and> ts_modes t' (?dest name) = Some (mode mod 512)"
    "\<And>q. plain q \<Longrightarrow> q \<notin> (\<lambda>(name, _). ?dest name) ` set items \<Longrightarrow>
       w_files (ts_world t') q = w_files (ts_world t1) q \<and> ts_modes t' q = ts_modes t1 q"
    by blast
  have first: "w_files (ts_world t') (?dest name) = Some data" "ts_modes t' (?dest name) = Some (mode mod 512)"
    using t'(4) [OF one(4) new] t1(3) one(4) t1(4) by simp_all
  show ?case
  proof (intro exI [of _ t'] conjI allI impI)
    show "run_state (UnpackFiles sys dir stem2 (concat (map (\<lambda>(name, mode, data). pack_file name mode stem data) (item # items)))) t = (True, t')"
      using t1(1) t'(1) by (simp add: item)
    show "same_daemon t t'" by (rule same_daemon_trans [OF t1(2) t'(2)])
    fix n m d
    assume "(n, m, d) \<in> set (item # items)"
    then have "(n, m, d) = (name, mode, data) \<or> (n, m, d) \<in> set items" by (simp add: item)
    then show "w_files (ts_world t') (?dest n) = Some d" "ts_modes t' (?dest n) = Some (m mod 512)"
      using first t'(3) by blast+
  next
    fix q
    assume q: "plain q" "q \<notin> (\<lambda>(name, _). ?dest name) ` set (item # items)"
    then have "q \<noteq> ?dest name" "q \<notin> (\<lambda>(name, _). ?dest name) ` set items" by (auto simp: item)
    then show "w_files (ts_world t') q = w_files (ts_world t) q" "ts_modes t' q = ts_modes t q"
      using t'(4) [OF q(1)] t1(3) q(1) t1(4) by simp_all
  qed
qed

section \<open>What reaches the key\<close>

definition value_options :: "string list" where
  "value_options = [''--out-dir'', ''--sysroot'', ''--crate-name'', ''--extern'', ''--emit'', ''-L''] @ kTwoTokenOptions"

text \<open>Words after a complete option do not change how it is read.\<close>

lemma take_option_append:
  "rest \<noteq> [] \<or> arg \<noteq> flag \<Longrightarrow>
   take_option flag arg (rest @ ys) = map_option (\<lambda>(value, rest). (value, rest @ ys)) (take_option flag arg rest)"
  by (cases "arg = flag"; cases rest) (simp_all add: take_option_def)

lemma join_option_append:
  "rest \<noteq> [] \<or> arg \<notin> set kTwoTokenOptions \<Longrightarrow>
   join_option arg (rest @ ys) = (case join_option arg rest of (full, rest) \<Rightarrow> (full, rest @ ys))"
  by (cases "arg \<in> set kTwoTokenOptions"; cases rest) (simp_all add: join_option_def)

lemma TakeNamedOption_append:
  assumes "rest \<noteq> [] \<or> arg \<notin> set value_options"
  shows "TakeNamedOption arg (rest @ ys) rinv = map_option (\<lambda>(rest, rinv). (rest @ ys, rinv)) (TakeNamedOption arg rest rinv)"
proof -
  have "take_option flag arg (rest @ ys) = map_option (\<lambda>(value, rest). (value, rest @ ys)) (take_option flag arg rest)"
    if "flag \<in> set value_options" for flag
    using assms that by (intro take_option_append) auto
  then show ?thesis
    unfolding TakeNamedOption_def by (simp add: value_options_def Let_def split: option.split prod.split)
qed

lemma TakeCodegenOption_append:
  assumes "rest \<noteq> [] \<or> arg \<notin> set value_options"
  shows "TakeCodegenOption arg (rest @ ys) rinv = (case TakeCodegenOption arg rest rinv of (rest, rinv) \<Rightarrow> (rest @ ys, rinv))"
proof -
  have "rest \<noteq> [] \<or> arg \<notin> set kTwoTokenOptions" using assms by (auto simp: value_options_def)
  from join_option_append [OF this] show ?thesis by (simp add: TakeCodegenOption_def case_prod_beta)
qed

lemma rust_word_append:
  assumes "rest \<noteq> [] \<or> arg \<notin> set value_options"
  shows "rust_word arg (rest @ ys) p = (case rust_word arg rest p of (rest, p) \<Rightarrow> (rest @ ys, p))"
proof -
  obtain rinv sources where p: "p = (rinv, sources)" by fastforce
  show ?thesis
    unfolding p rust_word_def prod.case TakeNamedOption_append [OF assms] TakeCodegenOption_append [OF assms]
    by (cases "TakeNamedOption arg rest rinv") (simp_all add: case_prod_beta)
qed

lemma take_option_rest:
  "take_option flag arg rest = Some (value, rest') \<Longrightarrow> rest' = rest \<or> rest \<noteq> [] \<and> rest' = tl rest"
  by (auto simp: take_option_def split: if_splits)

lemma TakeNamedOption_rest:
  assumes "TakeNamedOption arg rest rinv = Some (rest', rinv')"
  shows "rest' = rest \<or> rest \<noteq> [] \<and> rest' = tl rest"
proof -
  have "\<exists>flag value. take_option flag arg rest = Some (value, rest')"
    using assms unfolding TakeNamedOption_def Let_def by (simp split: option.splits prod.splits) blast+
  then show ?thesis using take_option_rest by blast
qed

lemma rust_word_rest:
  assumes "rust_word arg rest p = (rest', p')"
  shows "rest' = rest \<or> rest \<noteq> [] \<and> rest' = tl rest"
proof (cases "TakeNamedOption arg rest (fst p)")
  case None
  then show ?thesis
    using assms by (cases p) (simp add: rust_word_def TakeCodegenOption_def join_option_def split: if_splits)
next
  case (Some a)
  then have "TakeNamedOption arg rest (fst p) = Some (rest', fst p')"
    using assms by (cases p; cases a) (auto simp: rust_word_def)
  then show ?thesis by (rule TakeNamedOption_rest)
qed

lemma rust_words_append:
  "pre = [] \<or> last pre \<notin> set value_options \<Longrightarrow> rust_words (pre @ post) p = rust_words post (rust_words pre p)"
proof (induction pre p rule: rust_words.induct)
  case (2 arg rest p)
  obtain rest' p' where one: "rust_word arg rest p = (rest', p')" by (rule prod.exhaust)
  have "rest \<noteq> [] \<or> arg \<notin> set value_options" using 2(2) by auto
  from rust_word_append [OF this, of post p] have app: "rust_word arg (rest @ post) p = (rest' @ post, p')" by (simp add: one)
  have "rest' = [] \<or> last rest' \<notin> set value_options"
    using rust_word_rest [OF one] 2(2) by (cases rest) (auto split: if_splits)
  with 2(1) [OF one [symmetric]] show ?case by (simp add: one app)
qed simp

text \<open>Neither the whole command line nor the name suffix is looked at.\<close>

definition renamed :: "string list \<Rightarrow> string \<Rightarrow> rust_invocation \<Rightarrow> rust_invocation" where
  "renamed args stem rinv = rinv\<lparr>ri_args := args, ri_extra_filename := stem\<rparr>"

definition codegen_stem :: "string \<Rightarrow> string \<Rightarrow> string" where
  "codegen_stem full stem =
     (if \<not> starts_with full ''-C=incremental='' \<and> starts_with full ''-C=extra-filename='' then drop 18 full else stem)"

lemma codegen_renamed:
  "codegen_option full (renamed args stem rinv) = renamed args (codegen_stem full stem) (codegen_option full rinv)"
  by (cases rinv) (simp add: codegen_option_def renamed_def codegen_stem_def)

lemma renamed_updates:
  "(renamed args stem rinv)\<lparr>ri_query := q\<rparr> = renamed args stem (rinv\<lparr>ri_query := q\<rparr>)"
  "(renamed args stem rinv)\<lparr>ri_cacheable := q\<rparr> = renamed args stem (rinv\<lparr>ri_cacheable := q\<rparr>)"
  "(renamed args stem rinv)\<lparr>ri_source := x\<rparr> = renamed args stem (rinv\<lparr>ri_source := x\<rparr>)"
  "(renamed args stem rinv)\<lparr>ri_links := q\<rparr> = renamed args stem (rinv\<lparr>ri_links := q\<rparr>)"
  by (cases rinv, simp add: renamed_def)+

lemma rust_word_renamed:
  "\<exists>stem'. rust_word arg rest (renamed args stem rinv, sources) =
     (case rust_word arg rest (rinv, sources) of (rest, rinv, sources) \<Rightarrow> (rest, renamed args stem' rinv, sources))"
proof -
  have named: "TakeNamedOption arg rest (renamed args stem rinv) =
      map_option (\<lambda>(rest, rinv). (rest, renamed args stem rinv)) (TakeNamedOption arg rest rinv)"
    by (simp add: TakeNamedOption_def renamed_def Let_def split: option.split prod.split)
  obtain full rest' where j: "join_option arg rest = (full, rest')" by (rule prod.exhaust)
  have "TakeCodegenOption arg rest (renamed args stem rinv) =
      (case TakeCodegenOption arg rest rinv of (rest, rinv) \<Rightarrow> (rest, renamed args (codegen_stem full stem) rinv))"
    by (simp add: TakeCodegenOption_def j codegen_renamed)
  note codegen = this
  show ?thesis
  proof (cases "TakeNamedOption arg rest rinv")
    case None
    then have none: "TakeNamedOption arg rest (renamed args stem rinv) = None" by (simp add: named)
    show ?thesis
    proof (cases "is_probe arg \<or> arg = ''-o'' \<or> \<not> starts_with arg ''-'' \<and> ends_with arg ''.rs''")
      case True
      then show ?thesis unfolding rust_word_def prod.case None none option.case
        by (intro exI [of _ stem]) (simp add: renamed_updates, blast)
    next
      case False
      obtain rest2 rinv2 where "TakeCodegenOption arg rest rinv = (rest2, rinv2)" by (rule prod.exhaust)
      with False codegen show ?thesis unfolding rust_word_def prod.case None none option.case
        by (intro exI [of _ "codegen_stem full stem"]) (simp, blast)
    qed
  next
    case (Some a)
    obtain rest2 rinv2 where "a = (rest2, rinv2)" by (rule prod.exhaust)
    then show ?thesis by (intro exI [of _ stem]) (simp add: rust_word_def named Some)
  qed
qed

lemma rust_words_renamed:
  "\<exists>stem'. rust_words xs (renamed args stem rinv, sources) =
     (case rust_words xs (rinv, sources) of (rinv, sources) \<Rightarrow> (renamed args stem' rinv, sources))"
proof (induction xs "(rinv, sources)" arbitrary: stem rinv sources rule: rust_words.induct)
  case (2 arg rest)
  obtain rest' rinv' sources' where one: "rust_word arg rest (rinv, sources) = (rest', rinv', sources')" by (rule prod_cases3)
  obtain stem1 where "rust_word arg rest (renamed args stem rinv, sources) = (rest', renamed args stem1 rinv', sources')"
    using rust_word_renamed [of arg rest args stem rinv sources] by (auto simp: one)
  with 2 [OF one [symmetric], of stem1] show ?case by (simp add: one)
qed auto

lemma ParseRustInvocation_renamed:
  assumes "rust_words args (empty_rust_invocation\<lparr>ri_args := args\<rparr>, 0) = rust_words post (renamed args stem rinv, n)"
    and "rust_words args' (empty_rust_invocation\<lparr>ri_args := args'\<rparr>, 0) = rust_words post (renamed args' stem' rinv, n)"
  obtains stem2 where "ParseRustInvocation args' = renamed args' stem2 (ParseRustInvocation args)"
proof -
  obtain rinv2 n2 where w: "rust_words post (rinv, n) = (rinv2, n2)" by (rule prod.exhaust)
  obtain s1 where s1: "rust_words post (renamed args stem rinv, n) = (renamed args s1 rinv2, n2)"
    using rust_words_renamed [of post args stem rinv n] by (auto simp: w)
  obtain s2 where s2: "rust_words post (renamed args' stem' rinv, n) = (renamed args' s2 rinv2, n2)"
    using rust_words_renamed [of post args' stem' rinv n] by (auto simp: w)
  have "ParseRustInvocation args' = renamed args' s2 (ParseRustInvocation args)"
    unfolding ParseRustInvocation_def assms s1 s2 prod.case by (cases rinv2) (simp add: Let_def renamed_def)
  then show thesis by (rule that)
qed

lemma rust_words_hash_names:
  "rust_words (''-C'' # (''metadata='' @ a) # ''-C'' # (''extra-filename='' @ b) # post) (renamed args stem rinv, n) =
   rust_words post (renamed args b rinv, n)"
  by (simp add: rust_word_def TakeNamedOption_def take_option_def is_probe_def TakeCodegenOption_def join_option_def
      kTwoTokenOptions_def codegen_option_def renamed_def)

text \<open>A command line with the two hashes of cargo in it.\<close>

definition hash_named :: "string list \<Rightarrow> string \<Rightarrow> string \<Rightarrow> string list \<Rightarrow> string list" where
  "hash_named pre metadata extra post = pre @ [''-C'', ''metadata='' @ metadata, ''-C'', ''extra-filename='' @ extra] @ post"

text \<open>C38: the hashes cargo puts into file names do not reach the key.  Two calls that differ only in the values of
  \<open>-C metadata\<close> and \<open>-C extra-filename\<close> are cached alike and ask for the same key, whatever else is on the
  command line.\<close>

theorem rust_key_ignores_hash_names:
  assumes "pre = [] \<or> last pre \<notin> set value_options"
  shows "ri_cacheable (ParseRustInvocation (hash_named pre a b post)) =
      ri_cacheable (ParseRustInvocation (hash_named pre a' b' post)) \<and>
    rust_request_key sys h rustc (ParseRustInvocation (hash_named pre a b post)) bytes =
      rust_request_key sys h rustc (ParseRustInvocation (hash_named pre a' b' post)) bytes"
proof -
  let ?args = "\<lambda>a b. hash_named pre a b post"
  obtain rinv n where pre: "rust_words pre (empty_rust_invocation, 0) = (rinv, n)" by (rule prod.exhaust)
  have start: "\<exists>stem. rust_words pre (empty_rust_invocation\<lparr>ri_args := args\<rparr>, 0) = (renamed args stem rinv, n)" for args
  proof -
    have "empty_rust_invocation\<lparr>ri_args := args\<rparr> = renamed args [] empty_rust_invocation"
      by (simp add: empty_rust_invocation_def renamed_def)
    then show ?thesis using rust_words_renamed [of pre args "[]" empty_rust_invocation 0] by (simp add: pre)
  qed
  have words: "rust_words (?args a b) (empty_rust_invocation\<lparr>ri_args := ?args a b\<rparr>, 0) =
      rust_words post (renamed (?args a b) b rinv, n)" for a b
  proof -
    obtain stem where "rust_words pre (empty_rust_invocation\<lparr>ri_args := ?args a b\<rparr>, 0) = (renamed (?args a b) stem rinv, n)"
      using start by blast
    with rust_words_append [OF assms(1), of "''-C'' # (''metadata='' @ a) # ''-C'' # (''extra-filename='' @ b) # post"
        "(empty_rust_invocation\<lparr>ri_args := ?args a b\<rparr>, 0)"]
    have "rust_words (pre @ ''-C'' # (''metadata='' @ a) # ''-C'' # (''extra-filename='' @ b) # post)
        (empty_rust_invocation\<lparr>ri_args := ?args a b\<rparr>, 0) = rust_words post (renamed (?args a b) b rinv, n)"
      by (simp only: rust_words_hash_names)
    moreover have "?args a b = pre @ ''-C'' # (''metadata='' @ a) # ''-C'' # (''extra-filename='' @ b) # post"
      by (simp only: hash_named_def append.simps)
    ultimately show ?thesis by simp
  qed
  obtain stem where "ParseRustInvocation (?args a' b') = renamed (?args a' b') stem (ParseRustInvocation (?args a b))"
    by (rule ParseRustInvocation_renamed [OF words words])
  then show ?thesis by (simp add: renamed_def rust_request_key_def rust_key_fields_def)
qed

theorem rust_key_ignores_hash_names_witness:
  "rust_request_key demo_sys \<lparr>rh_modes = (\<lambda>_. 420), rh_weakly_canonical = id\<rparr> ''rustc''
     (ParseRustInvocation [''--crate-name'', ''foo'', ''-C'', ''metadata=1'', ''-C'', ''extra-filename=-1'', ''src/lib.rs'']) ''fn'' =
   rust_request_key demo_sys \<lparr>rh_modes = (\<lambda>_. 420), rh_weakly_canonical = id\<rparr> ''rustc''
     (ParseRustInvocation [''--crate-name'', ''foo'', ''-C'', ''metadata=2'', ''-C'', ''extra-filename=-2'', ''src/lib.rs'']) ''fn''"
proof -
  have "last [''--crate-name'', ''foo''] \<notin> set value_options" by (simp add: value_options_def kTwoTokenOptions_def)
  then show ?thesis
    using rust_key_ignores_hash_names [of "[''--crate-name'', ''foo'']" "''1''" "''-1''" "[''src/lib.rs'']" "''2''" "''-2''"] by (simp add: hash_named_def)
qed

text \<open>A call without a suffix shares its key with one that has a suffix, but its artifacts have no stem to replace.\<close>

definition plain_crate :: "string list \<Rightarrow> rust_invocation" where
  "plain_crate extra = ParseRustInvocation ([''--crate-name=foo'', ''--crate-type=lib'', ''--emit=dep-info'', ''--out-dir=o''] @
     extra @ [''lib.rs''])"

lemma suffix_not_added:
  "ri_cacheable (plain_crate []) \<and> ri_cacheable (plain_crate [''-Cextra-filename=-2'']) \<and>
   ri_key_args (plain_crate []) = ri_key_args (plain_crate [''-Cextra-filename=-2'']) \<and>
   ReplaceAll (ReplaceAll ''libfoo.rlib'' (ri_extra_filename (plain_crate [])) ''@'') ''@''
     (ri_extra_filename (plain_crate [''-Cextra-filename=-2''])) = ''libfoo.rlib''"
  by code_simp

section \<open>Compiling and replaying\<close>

text \<open>The manifest of a compilation that left the world \<open>w\<close>.\<close>

definition rust_manifest :: "sys \<Rightarrow> world \<Rightarrow> string \<Rightarrow> rust_invocation \<Rightarrow> dep_info \<Rightarrow> manifest" where
  "rust_manifest sys w rk rinv info =
     snd (BuildManifest (host_of sys True w) (w_store w) rk (di_inputs info) (absolute sys (ri_source rinv)) [])"

lemma host_of_stderr [simp]: "host_of sys b (w\<lparr>w_stderr := s\<rparr>) = host_of sys b w"
  by (simp add: host_of_def path_exists_def fun_eq_iff)

lemma rust_store_cache:
  assumes "reliable w"
  shows "w_cache (snd (run_state (rust_store sys h rinv rk r dep) w)) =
    (w_cache w)(slot_Manifest rk \<mapsto> m_text (rust_manifest sys w rk rinv (ParseDepInfo sys dep)),
      slot_Object (m_result_key (rust_manifest sys w rk rinv (ParseDepInfo sys dep))) \<mapsto>
        PackFiles (w_files w) (rh_modes h) (di_outputs (ParseDepInfo sys dep)) (ri_extra_filename rinv),
      slot_Stderr (m_result_key (rust_manifest sys w rk rinv (ParseDepInfo sys dep))) \<mapsto> rr_stderr r)"
  using assms by (simp add: rust_store_def rust_manifest_def run_simps Let_def del: fun_upd_apply run_state_bind)

lemma rust_compile_cache:
  assumes "reliable w" "run_state (with_slot sys [] (Run sys rustc (ri_args rinv) KCapture)) w = (r, w1)"
    and "rr_status r = 0" "w_files w1 (dep_file rinv) = Some dep"
  shows "w_cache (snd (run_state (rust_compile sys h rustc rinv rk missed) w)) =
    w_cache (snd (run_state (rust_store sys h rinv rk r dep) (w1\<lparr>w_stderr := w_stderr w1 @ rr_stderr r\<rparr>)))"
proof -
  have "local_step (do { log_outcome sys ''rustc'' KMissStored missed; give (0::int) })" by (intro local_intros)
  then have "w_cache (snd (run_state (do { log_outcome sys ''rustc'' KMissStored missed; give (0::int) }) w3)) = w_cache w3" for w3
    by (simp add: local_step_def Let_def)
  then show ?thesis
    using assms(2-4) by (simp add: rust_compile_def run_bind run_print run_read_file del: run_state_bind)
qed

lemma run_find_stored:
  assumes "reliable w" "w_cache w (slot_Manifest rk) = Some s"
    and "snd (ValidateManifest (host_of sys True w) (w_store w) rk s) = Inr key"
  shows "run_state (find_result sys rk) w = (Inr key, w\<lparr>w_store := fst (ValidateManifest (host_of sys True w) (w_store w) rk s)\<rparr>)"
  using assms by (simp add: run_simps FindResult_def Let_def case_prod_beta)

lemma rust_replay_restores:
  assumes "reliable (ts_world t)" "Env (w_env (ts_world t)) ''JIG_LOG'' [] = []"
    and "w_cache (ts_world t) (slot_Object key) = Some (PackFiles files modes paths stem)"
    and "w_cache (ts_world t) (slot_Stderr key) = Some err"
    and "room_for_artifacts sys (ri_out_dir rinv) stem (ri_extra_filename rinv) (artifacts files modes paths)"
  obtains t' where "run_state (rust_replay sys rinv label key) t = (True, t')"
    "w_stderr (ts_world t') = w_stderr (ts_world t) @ err"
    "\<forall>name mode data. (name, mode, data) \<in> set (artifacts files modes paths) \<longrightarrow>
       w_files (ts_world t') (path_append (ri_out_dir rinv) (ReplaceAll name stem (ri_extra_filename rinv))) = Some data \<and>
       ts_modes t' (path_append (ri_out_dir rinv) (ReplaceAll name stem (ri_extra_filename rinv))) = Some (mode mod 512)"
proof -
  from UnpackFiles_items [OF assms(5), of t] obtain t1 where
    t1: "run_state (UnpackFiles sys (ri_out_dir rinv) (ri_extra_filename rinv) (PackFiles files modes paths stem)) t = (True, t1)"
      "same_daemon t t1"
    and files: "\<forall>name mode data. (name, mode, data) \<in> set (artifacts files modes paths) \<longrightarrow>
       w_files (ts_world t1) (path_append (ri_out_dir rinv) (ReplaceAll name stem (ri_extra_filename rinv))) = Some data \<and>
       ts_modes t1 (path_append (ri_out_dir rinv) (ReplaceAll name stem (ri_extra_filename rinv))) = Some (mode mod 512)"
    unfolding PackFiles_artifacts by blast
  let ?t' = "t1\<lparr>ts_world := (ts_world t1)\<lparr>w_stderr := w_stderr (ts_world t1) @ err\<rparr>\<rparr>"
  have "reliable (ts_world t1)" "w_cache (ts_world t1) (slot_Stderr key) = Some err" "Env (w_env (ts_world t1)) ''JIG_LOG'' [] = []"
    using t1(2) assms(1,2,4) by (simp_all add: same_daemon_def)
  then have "run_state (rust_replay sys rinv label key) t = (True, ?t')"
    using assms(1,3) t1(1) by (simp add: rust_replay_def run_simps Let_def del: run_state_bind)
  then show thesis by (rule that) (use t1(2) files in \<open>simp_all add: same_daemon_def\<close>)
qed

text \<open>What a later call has in common with the one that compiled.\<close>

definition later_call :: "sys \<Rightarrow> world \<Rightarrow> world \<Rightarrow> dep_info \<Rightarrow> bool" where
  "later_call sys w w' info \<longleftrightarrow> reliable w' \<and> Env (w_env w') ''JIG_LOG'' [] = [] \<and>
     forget_ids (w_store w') = forget_ids (w_store w) \<and> ids_from (sy_ident sys) (w_store w') \<and>
     same_inputs (host_of sys True w) (host_of sys True w') (di_inputs info) []"

lemma in_artifacts:
  "p \<in> set paths \<Longrightarrow> files p = Some data \<Longrightarrow> (path_filename p, modes p, data) \<in> set (artifacts files modes paths)"
  by (force simp: artifacts_def List.map_filter_def)


definition demo_rust_sys :: sys where
  "demo_rust_sys = demo_sys\<lparr>sy_exec := (\<lambda>program args env files. \<lparr>ch_pipe = True, ch_fork = True, ch_found = True,
     ch_reads = [''warn''], ch_eintr = 0, ch_end = Exited 0, ch_stdout = [],
     ch_files = files(''out/libfoo-1.rlib'' \<mapsto> ''lib'', ''out/foo-1.d'' \<mapsto> ''out/libfoo-1.rlib: src/lib.rs'')\<rparr>)\<rparr>"

definition demo_rust_host :: rust_host where
  "demo_rust_host = \<lparr>rh_modes = (\<lambda>_. 420), rh_weakly_canonical = (\<lambda>p. p)\<rparr>"

definition demo_crate :: "string \<Rightarrow> rust_invocation" where
  "demo_crate extra = ParseRustInvocation [''--crate-name'', ''foo'', ''--crate-type'', ''lib'', ''--emit=dep-info,link'',
     ''--out-dir'', ''out'', ''-C'', ''extra-filename='' @ extra, ''src/lib.rs'']"

definition demo_rust_world :: world where
  "demo_rust_world = demo_world\<lparr>w_files := [''/build/src/lib.rs'' \<mapsto> ''fn'']\<rparr>"

definition demo_rust_later :: tree_state where
  "demo_rust_later = \<lparr>ts_world = demo_rust_world\<lparr>w_cache := w_cache (snd (run_state
     (rust_compile demo_rust_sys demo_rust_host ''rustc'' (demo_crate ''-1'') ''k'' ''new'') demo_rust_world))\<rparr>,
     ts_links = Map.empty, ts_modes = Map.empty\<rparr>"


end
