(* ===== verification/Binary_Image.thy ===== *)
theory Binary_Image
  imports Dir_Mode
begin

text \<open>
  What the two halves of \<open>reloc-fixup\<close> share (\<open>fixup_mode.h\<close>, \<open>fixup_mode.cc\<close>): the bounds-checked view of a
  binary, little-endian fields, relative paths, the places before and after installation, and writing back.
  The lemmas show that an access outside of the image is refused and changes nothing, what a write leaves
  of every other byte, and that a relative path leads to its target from the directory it counts from.
\<close>

section \<open>Relative paths\<close>

fun mismatch :: "'a list \<Rightarrow> 'a list \<Rightarrow> 'a list \<times> 'a list" where
  "mismatch (x # xs) (y # ys) = (if x = y then mismatch xs ys else (x # xs, y # ys))"
| "mismatch xs ys = (xs, ys)"

definition lexically_relative :: "string \<Rightarrow> string \<Rightarrow> string" where
  "lexically_relative p base =
     (if is_absolute p \<noteq> is_absolute base then []
      else case mismatch (path_elements p) (path_elements base) of
        (a, b) \<Rightarrow>
          let n = int (length (filter (\<lambda>e. e \<notin> {[], ''.'', ''..''}) b)) - int (length (filter (\<lambda>e. e = ''..'') b))
          in if a = [] \<and> b = [] then ''.''
             else if n < 0 then []
             else if n = 0 \<and> (a = [] \<or> hd a = []) then ''.''
             else foldl path_append [] (replicate (nat n) ''..'' @ a))"

definition RelativeTo :: "string \<Rightarrow> string \<Rightarrow> string \<Rightarrow> string" where
  "RelativeTo dir target anchor =
     (let rel = lexically_relative (lexically_normal target) dir in
      if anchor = [] then rel else if rel = ''.'' then anchor else anchor @ ''/'' @ rel)"

record fixup_context =
  fc_prefix :: string
  fc_dest :: string
  fc_own_lib_dirs :: "string list"
  fc_denied :: "string list"
  fc_sdk :: string

definition Final :: "fixup_context \<Rightarrow> string \<Rightarrow> string" where
  "Final ctx path =
     (let rel = lexically_relative (lexically_normal path) (fc_prefix ctx) in
      if rel = [] \<or> starts_with rel ''..'' then path else lexically_normal (path_append (fc_dest ctx) rel))"

definition OnDisk :: "fixup_context \<Rightarrow> string \<Rightarrow> string" where
  "OnDisk ctx path =
     (let rel = lexically_relative (lexically_normal path) (fc_dest ctx) in
      if rel = [] \<or> starts_with rel ''..'' then path else lexically_normal (path_append (fc_prefix ctx) rel))"

section \<open>The image\<close>

text \<open>Offsets are 64 bits wide, so sums of them wrap.\<close>

definition add64 :: "nat \<Rightarrow> nat \<Rightarrow> nat" where
  "add64 a b = (a + b) mod 2 ^ 64"

fun le_value :: "string \<Rightarrow> nat" where
  "le_value [] = 0"
| "le_value (c # cs) = of_char c + 256 * le_value cs"

fun le_bytes :: "nat \<Rightarrow> nat \<Rightarrow> string" where
  "le_bytes 0 v = []"
| "le_bytes (Suc n) v = char_of (v mod 256) # le_bytes n (v div 256)"

text \<open>The bytes of a structure of the given size, and the value of a field in it.\<close>

definition Read :: "string \<Rightarrow> nat \<Rightarrow> nat \<Rightarrow> string option" where
  "Read bytes offset n = (if offset > length bytes \<or> length bytes - offset < n then None else Some (take n (drop offset bytes)))"

definition field :: "nat \<Rightarrow> nat \<Rightarrow> string \<Rightarrow> nat" where
  "field offset n s = le_value (take n (drop offset s))"

definition set_field :: "nat \<Rightarrow> nat \<Rightarrow> nat \<Rightarrow> string \<Rightarrow> string" where
  "set_field offset n v s = replace_at s offset n (le_bytes n v)"

definition Overwrite :: "string \<Rightarrow> nat \<Rightarrow> string \<Rightarrow> bool \<times> string" where
  "Overwrite bytes offset s =
     (if offset > length bytes \<or> length bytes - offset < length s then (False, bytes)
      else (True, replace_at bytes offset (length s) s))"

definition Write :: "string \<Rightarrow> nat \<Rightarrow> string \<Rightarrow> bool \<times> string" where
  "Write bytes offset value =
     (if offset > length bytes \<or> length bytes - offset < length value then (False, bytes)
      else (True, replace_at bytes offset (length value) value))"

definition CString :: "string \<Rightarrow> nat \<Rightarrow> string" where
  "CString bytes offset =
     (if offset \<ge> length bytes then []
      else case find_from bytes [CHR 0x00] offset of
        None \<Rightarrow> drop offset bytes
      | Some e \<Rightarrow> take (e - offset) (drop offset bytes))"

definition WritePadded :: "string \<Rightarrow> nat \<Rightarrow> nat \<Rightarrow> string \<Rightarrow> bool \<times> string" where
  "WritePadded bytes offset capacity s =
     (if length s + 1 > capacity \<or> offset > length bytes \<or> length bytes - offset < capacity then (False, bytes)
      else (True, replace_at bytes offset capacity (s @ replicate (capacity - length s) CHR 0x00)))"

definition IsElf64LittleEndian :: "string \<Rightarrow> bool" where
  "IsElf64LittleEndian bytes \<longleftrightarrow> starts_with bytes (CHR 0x7F # ''ELF'') \<and> length bytes > 5 \<and>
     bytes ! 4 = CHR 0x02 \<and> bytes ! 5 = CHR 0x01"

section \<open>State and writing back\<close>

text \<open>The files with their permissions, and the number of errors counted in the context.\<close>

record fix_state =
  fx_tree :: tree_state
  fx_errors :: nat

type_synonym 'a frun = "(fix_state, 'a) state"

definition in_tree :: "'a run \<Rightarrow> 'a frun" where
  "in_tree m = State (\<lambda>s. case in_world m (fx_tree s) of (a, t) \<Rightarrow> (a, s\<lparr>fx_tree := t\<rparr>))"

definition count_error :: "unit frun" where
  "count_error = State (\<lambda>s. ((), s\<lparr>fx_errors := fx_errors s + 1\<rparr>))"

definition stat_mode :: "string \<Rightarrow> nat option frun" where
  "stat_mode path = State (\<lambda>s. (ts_modes (fx_tree s) path, s))"

definition chmod :: "string \<Rightarrow> nat \<Rightarrow> unit frun" where
  "chmod path mode = State (\<lambda>s. ((), s\<lparr>fx_tree := (fx_tree s)\<lparr>ts_modes := (ts_modes (fx_tree s))(path \<mapsto> mode)\<rparr>\<rparr>))"

definition kOwnerWrite :: nat where
  "kOwnerWrite = 128"

definition WriteBack :: "sys \<Rightarrow> string \<Rightarrow> string \<Rightarrow> bool frun" where
  "WriteBack sys path bytes = do {
     mode \<leftarrow> stat_mode path;
     (case mode of None \<Rightarrow> State_Monad.return () | Some m \<Rightarrow> chmod path (or m kOwnerWrite));
     written \<leftarrow> in_tree (write_file sys path bytes);
     (case mode of None \<Rightarrow> State_Monad.return () | Some m \<Rightarrow> chmod path m);
     (if written then State_Monad.return ()
      else in_tree (print_err (path @ '': cannot write back: '' @ sy_error sys @ [CHR 0x0A])));
     State_Monad.return written
   }"

section \<open>Relative paths lead to their target\<close>

text \<open>The directories and names a path walks through, and the text of an absolute one.\<close>

definition walk :: "string \<Rightarrow> string list" where
  "walk p = rev (norm_stack (is_absolute p) (Split p slash False))"

definition abs_path :: "string list \<Rightarrow> string" where
  "abs_path cs = ''/'' @ Join cs ''/''"

lemma mismatch_split: "mismatch xs ys = (a, b) \<Longrightarrow> \<exists>c. xs = c @ a \<and> ys = c @ b"
proof (induction xs ys rule: mismatch.induct)
  case (1 x xs y ys)
  show ?case
  proof (cases "x = y")
    case True
    with 1 obtain c where "xs = c @ a \<and> ys = c @ b" by auto
    then show ?thesis using True by (intro exI [of _ "x # c"]) simp
  qed (use 1 in simp)
qed auto

lemma abs_path_parts:
  assumes "list_all is_name cs"
  shows "is_absolute (abs_path cs)" "Split (abs_path cs) slash False = cs" "walk (abs_path cs) = cs"
    "path_elements (abs_path cs) = ''/'' # cs"
proof -
  have comp: "\<forall>c \<in> set cs. is_component c" using assms by (auto simp: is_name_def list_all_iff)
  show a: "is_absolute (abs_path cs)" by (simp add: is_absolute_def abs_path_def)
  show s: "Split (abs_path cs) slash False = cs"
    using Split_components [OF comp] by (simp add: abs_path_def Split_leading_sep)
  show "walk (abs_path cs) = cs"
    using norm_stack_names [OF assms, of True "[]"] by (simp add: walk_def a s norm_stack_def)
  have "\<not> ends_with (abs_path cs) ''/''" if "cs \<noteq> []"
  proof -
    have "last cs \<in> set cs" using that by simp
    then have "is_component (last cs)" using comp by blast
    then have "last (last cs) \<noteq> slash" by (metis last_in_set)
    moreover have "Join cs ''/'' \<noteq> []" using hd_Join [OF that] comp that by (metis hd_in_set)
    ultimately show ?thesis
      using last_Join [OF that, of "''/''"] comp by (subst ends_with_char) (auto simp: abs_path_def)
  qed
  then show "path_elements (abs_path cs) = ''/'' # cs" by (auto simp: path_elements_def a s)
qed

lemma norm_push_parents:
  "list_all is_name b \<Longrightarrow> foldl (norm_push True) (rev b @ st) (replicate (length b) ''..'') = st"
proof (induction b arbitrary: st rule: rev_induct)
  case (snoc x b)
  have "norm_push True (rev (b @ [x]) @ st) ''..'' = rev b @ st"
    using snoc.prems by (simp add: norm_push_def is_name_def)
  then show ?case using snoc by simp
qed simp

lemma foldl_path_append:
  "\<forall>c \<in> set cs. is_component c \<Longrightarrow> p \<noteq> [] \<Longrightarrow> last p \<noteq> slash \<Longrightarrow> foldl path_append p cs = p @ join_rest ''/'' cs"
proof (induction cs arbitrary: p)
  case (Cons c cs)
  have c: "c \<noteq> []" "hd c \<noteq> slash" "last c \<noteq> slash" using Cons.prems(1) by (simp, metis hd_in_set list.set_intros(1), metis last_in_set list.set_intros(1))
  have "path_append p c = p @ ''/'' @ c"
    using Cons.prems(2,3) c by (cases c) (simp_all add: path_append_def is_absolute_def ends_with_char)
  moreover have "foldl path_append (p @ ''/'' @ c) cs = (p @ ''/'' @ c) @ join_rest ''/'' cs"
    using Cons.prems c by (intro Cons.IH) simp_all
  ultimately show ?case by (simp add: join_rest_Cons)
qed simp

lemma foldl_path_append_Nil:
  assumes "\<forall>c \<in> set cs. is_component c"
  shows "foldl path_append [] cs = Join cs ''/''"
proof (cases cs)
  case (Cons c cs')
  have c: "c \<noteq> []" "hd c \<noteq> slash" "last c \<noteq> slash" using assms Cons by (simp, metis hd_in_set list.set_intros(1), metis last_in_set list.set_intros(1))
  have "path_append [] c = c" using c by (cases c) (simp_all add: path_append_def is_absolute_def)
  then show ?thesis using foldl_path_append [of cs' c] assms c Cons by (simp add: Join_Cons)
qed simp

lemma name_component: "list_all is_name cs \<Longrightarrow> \<forall>c \<in> set cs. is_component c"
  by (auto simp: is_name_def list_all_iff)

lemma lexically_normal_abs_path: "list_all is_name cs \<Longrightarrow> lexically_normal (abs_path cs) = abs_path cs"
proof (cases "cs = []")
  case False
  assume names: "list_all is_name cs"
  then have "normal_components True cs" by (cases cs) (auto simp: is_name_def)
  from lexically_normal_render [OF this False, of False] show ?thesis by (simp add: render_normal_def abs_path_def)
qed (simp add: abs_path_def lexically_normal_def is_absolute_def Split_leading_sep norm_stack_def str_simps)

text \<open>What the relative path is: up from the end of the base, then down.\<close>

lemma lexically_relative_abs:
  assumes "list_all is_name ts" "list_all is_name cs"
  obtains c a b where "ts = c @ a" "cs = c @ b"
    "lexically_relative (abs_path ts) (abs_path cs) =
       (if a = [] \<and> b = [] then ''.'' else Join (replicate (length b) ''..'' @ a) ''/'')"
proof -
  obtain a b where m: "mismatch (path_elements (abs_path ts)) (path_elements (abs_path cs)) = (a, b)" by (rule prod.exhaust)
  have m2: "mismatch ts cs = (a, b)" using m abs_path_parts(4) assms by simp
  then obtain c where c: "ts = c @ a" "cs = c @ b" using mismatch_split by blast
  have names: "list_all is_name a" "list_all is_name b" using assms c by simp_all
  then have b: "filter (\<lambda>e. e \<notin> {[], ''.'', ''..''}) b = b" "filter (\<lambda>e. e = ''..'') b = []"
    by (auto simp: filter_id_conv filter_empty_conv list_all_iff is_name_def)
  have ups: "\<forall>c \<in> set (replicate (length b) ''..'' @ a). is_component c"
    using name_component [OF names(1)] by auto
  have hd: "a \<noteq> [] \<Longrightarrow> hd a \<noteq> []" using name_component [OF names(1)] by (cases a) simp_all
  have "lexically_relative (abs_path ts) (abs_path cs) =
      (if a = [] \<and> b = [] then ''.'' else Join (replicate (length b) ''..'' @ a) ''/'')"
    unfolding lexically_relative_def m prod.case b Let_def foldl_path_append_Nil [OF ups, symmetric]
    using abs_path_parts(1) [OF assms(1)] abs_path_parts(1) [OF assms(2)] hd by auto
  with c show thesis by (rule that)
qed

lemma Split_append_sep: "Split (s @ sep # t) sep False = Split s sep False @ Split t sep False"
  by (induction s rule: fields_induct [of sep]) (auto simp: str_simps)

text \<open>C19: a relative path leads to its target.  For absolute normal paths, what \<open>RelativeTo\<close> gives with an anchor
  starts with the anchor, and with the directory in place of the anchor (what the dynamic linker does with
  \<open>$ORIGIN\<close>) it walks to the target.\<close>

theorem RelativeTo_resolves:
  assumes "list_all is_name dir" "list_all is_name target" "anchor \<noteq> []"
  shows "starts_with (RelativeTo (abs_path dir) (abs_path target) anchor) anchor \<and>
    walk (abs_path dir @ drop (length anchor) (RelativeTo (abs_path dir) (abs_path target) anchor)) = target"
proof -
  obtain c a b where c: "target = c @ a" "dir = c @ b"
    and rel: "lexically_relative (abs_path target) (abs_path dir) =
       (if a = [] \<and> b = [] then ''.'' else Join (replicate (length b) ''..'' @ a) ''/'')"
    by (rule lexically_relative_abs [OF assms(2,1)])
  have names: "list_all is_name c" "list_all is_name a" "list_all is_name b" using assms(1,2) c by simp_all
  let ?steps = "replicate (length b) ''..'' @ a"
  have steps: "\<forall>c \<in> set ?steps. is_component c" using name_component [OF names(2)] by auto
  have norm: "lexically_normal (abs_path target) = abs_path target" by (rule lexically_normal_abs_path [OF assms(2)])
  show ?thesis
  proof (cases "a = [] \<and> b = []")
    case True
    then have "RelativeTo (abs_path dir) (abs_path target) anchor = anchor"
      using assms(3) by (simp add: RelativeTo_def norm rel)
    then show ?thesis using True c abs_path_parts(3) [OF assms(1)] by simp
  next
    case False
    have "Join ?steps ''/'' \<noteq> ''.''"
    proof
      assume "Join ?steps ''/'' = ''.''"
      then have "?steps = Split ''.'' slash False" using Split_components [OF steps] by simp
      then have "?steps = [''.'']" by (simp add: str_simps)
      then show False using names(2) by (cases b) (simp_all add: is_name_def)
    qed
    then have rendered: "RelativeTo (abs_path dir) (abs_path target) anchor = anchor @ ''/'' @ Join ?steps ''/''"
      using assms(3) False by (simp add: RelativeTo_def norm rel Let_def)
    have "Split (abs_path dir @ ''/'' @ Join ?steps ''/'') slash False = dir @ ?steps"
      using Split_append_sep [of "abs_path dir" slash "Join ?steps ''/''"] abs_path_parts(2) [OF assms(1)] Split_components [OF steps]
      by simp
    moreover have "is_absolute (abs_path dir @ ''/'' @ Join ?steps ''/'')" by (simp add: is_absolute_def abs_path_def)
    moreover have "foldl (norm_push True) [] (dir @ ?steps) = rev target"
      using norm_stack_names [OF names(1), of True "[]"] norm_stack_names [OF names(3), of True "rev c"]
        norm_push_parents [OF names(3), of "rev c"] norm_stack_names [OF names(2), of True "rev c"]
      by (simp add: c)
    ultimately show ?thesis by (simp add: rendered walk_def norm_stack_def)
  qed
qed

theorem RelativeTo_resolves_witness:
  "walk (abs_path [''nix'', ''a'', ''bin''] @ drop (length ''$ORIGIN'') (RelativeTo (abs_path [''nix'', ''a'', ''bin'']) (abs_path [''nix'', ''b'', ''lib'']) ''$ORIGIN'')) =
     [''nix'', ''b'', ''lib'']"
  using RelativeTo_resolves [of "[''nix'', ''a'', ''bin'']" "[''nix'', ''b'', ''lib'']" "''$ORIGIN''"] by (simp add: is_name_def)

text \<open>The place after installation and back.\<close>

lemma mismatch_prefix: "mismatch (xs @ ys) xs = (ys, [])"
  by (induction xs) (cases ys, simp_all)

lemma relative_below:
  assumes "list_all is_name base" "list_all is_name rel" "rel \<noteq> []"
  shows "lexically_relative (abs_path (base @ rel)) (abs_path base) = Join rel ''/''"
proof -
  have names: "list_all is_name (base @ rel)" using assms by simp
  have "hd rel \<noteq> []" using assms(2,3) by (cases rel) (simp_all add: is_name_def)
  then show ?thesis
    using assms(3) foldl_path_append_Nil [OF name_component [OF assms(2)]]
    by (simp add: lexically_relative_def abs_path_parts(1,4) [OF names] abs_path_parts(1,4) [OF assms(1)] mismatch_prefix)
qed

lemma path_append_abs:
  assumes "list_all is_name base" "list_all is_name rel" "rel \<noteq> []"
  shows "path_append (abs_path base) (Join rel ''/'') = abs_path (base @ rel)"
proof -
  have J: "Join rel ''/'' \<noteq> []" "hd (Join rel ''/'') \<noteq> slash"
    using hd_Join [of rel "''/''"] assms(2,3) by (cases rel; force simp: is_name_def)+
  then have rel: "\<not> is_absolute (Join rel ''/'')" by (cases "Join rel ''/''") (simp_all add: is_absolute_def)
  show ?thesis
  proof (cases base)
    case Nil
    then show ?thesis using rel by (simp add: path_append_def abs_path_def)
  next
    case (Cons c cs)
    have ends: "\<not> ends_with (abs_path base) ''/''"
      using abs_path_parts(1,2,4) [OF assms(1)] Cons by (auto simp: path_elements_def split: if_splits)
    have "c \<noteq> []" using assms(1) Cons by (simp add: is_name_def)
    moreover have "hd rel \<noteq> []" using assms(2,3) by (cases rel) (simp_all add: is_name_def)
    ultimately have "Join (base @ rel) ''/'' = Join base ''/'' @ ''/'' @ Join rel ''/''"
      using Cons assms(3) by (cases rel) (simp_all add: Join_Cons join_rest_def)
    then show ?thesis using rel ends by (simp add: path_append_def) (simp add: abs_path_def)
  qed
qed

lemma moved_below:
  assumes "list_all is_name base" "list_all is_name dst" "list_all is_name rel" "rel \<noteq> []" "\<not> starts_with (hd rel) ''..''"
  shows "(let r = lexically_relative (lexically_normal (abs_path (base @ rel))) (abs_path base) in
      if r = [] \<or> starts_with r ''..'' then path else lexically_normal (path_append (abs_path dst) r)) = abs_path (dst @ rel)"
proof -
  obtain x xs where rel: "rel = x # xs" using assms(4) by (cases rel) simp_all
  have names: "list_all is_name (base @ rel)" "list_all is_name (dst @ rel)" using assms by simp_all
  have x: "x \<noteq> []" "slash \<notin> set x" using assms(3) rel by (simp_all add: is_name_def)
  have J: "Join rel ''/'' = x @ join_rest ''/'' xs" using x by (simp add: rel Join_Cons)
  have "\<not> starts_with (x @ join_rest ''/'' xs) ''..''"
  proof
    assume "starts_with (x @ join_rest ''/'' xs) ''..''"
    then show False using assms(5) x by (cases x; cases "tl x"; cases xs) (auto simp: rel join_rest_Cons)
  qed
  then have "Join rel ''/'' \<noteq> []" "\<not> starts_with (Join rel ''/'') ''..''" using x by (simp_all add: J)
  then show ?thesis
    by (simp add: lexically_normal_abs_path [OF names(1)] relative_below [OF assms(1,3,4)]
        path_append_abs [OF assms(2,3,4)] lexically_normal_abs_path [OF names(2)])
qed

lemma Final_below:
  assumes "fc_prefix ctx = abs_path pre" "fc_dest ctx = abs_path dst" "list_all is_name pre" "list_all is_name dst"
    and "list_all is_name rel" "rel \<noteq> []" "\<not> starts_with (hd rel) ''..''"
  shows "Final ctx (abs_path (pre @ rel)) = abs_path (dst @ rel)" "OnDisk ctx (abs_path (dst @ rel)) = abs_path (pre @ rel)"
  unfolding Final_def OnDisk_def assms(1,2) by (rule moved_below [OF assms(3-7)], rule moved_below [OF assms(4,3,5-7)])

section \<open>Reading and writing the image\<close>

definition slice :: "nat \<Rightarrow> nat \<Rightarrow> 'a list \<Rightarrow> 'a list" where
  "slice o1 n s = take n (drop o1 s)"

lemma length_replace_same: "p + length new \<le> length s \<Longrightarrow> length (replace_at s p (length new) new) = length s"
  by (simp add: replace_at_def)

lemma slice_replace_same: "p + length new \<le> length s \<Longrightarrow> slice p (length new) (replace_at s p (length new) new) = new"
  by (simp add: slice_def replace_at_def)

lemma slice_replace_other:
  assumes "p + length new \<le> length s" "q + n \<le> p \<or> p + length new \<le> q"
  shows "slice q n (replace_at s p (length new) new) = slice q n s"
proof (rule nth_equalityI)
  show len: "length (slice q n (replace_at s p (length new) new)) = length (slice q n s)"
    using length_replace_same [OF assms(1)] by (simp add: slice_def)
  fix i
  assume "i < length (slice q n (replace_at s p (length new) new))"
  then have "i < n" "q + i < length s" using len by (auto simp: slice_def)
  then show "slice q n (replace_at s p (length new) new) ! i = slice q n s ! i"
    using assms by (auto simp: slice_def replace_at_def nth_append)
qed

text \<open>An access is refused exactly when it leaves the image, and then nothing changes; a write changes its own bytes
  only and never the size.\<close>

lemma Write_ok: "p + length v \<le> length s \<Longrightarrow> Write s p v = (True, replace_at s p (length v) v)"
  by (simp add: Write_def)

lemma Write_refused: "p + length v > length s \<Longrightarrow> Write s p v = (False, s)"
  by (auto simp: Write_def)

lemma Write_length [simp]: "length (snd (Write s p v)) = length s"
  by (cases "p + length v \<le> length s") (simp_all add: Write_ok Write_refused length_replace_same)

lemma Overwrite_is_Write: "Overwrite s p v = Write s p v"
  by (simp add: Overwrite_def Write_def)

lemma WritePadded_is_Write:
  "WritePadded s p cap v = (if length v < cap then Write s p (v @ replicate (cap - length v) CHR 0x00) else (False, s))"
  by (auto simp: WritePadded_def Write_def)

lemma WritePadded_length [simp]: "length (snd (WritePadded s p cap v)) = length s"
  by (simp add: WritePadded_is_Write)

lemma Write_slice_other: "q + n \<le> p \<or> p + length v \<le> q \<Longrightarrow> slice q n (snd (Write s p v)) = slice q n s"
  by (cases "p + length v \<le> length s") (simp_all add: Write_ok Write_refused slice_replace_other)

lemma Write_slice_same: "p + length v \<le> length s \<Longrightarrow> slice p (length v) (snd (Write s p v)) = v"
  by (simp add: Write_ok slice_replace_same)

lemma Read_slice: "Read s p n = (if p + n \<le> length s then Some (slice p n s) else None)"
  by (auto simp: Read_def slice_def)

lemma length_le_bytes [simp]: "length (le_bytes n v) = n"
  by (induction n arbitrary: v) simp_all

lemma le_value_bytes: "le_value (le_bytes n v) = v mod 256 ^ n"
proof (induction n arbitrary: v)
  case (Suc n)
  have "of_char (char_of (v mod 256) :: char) = v mod 256" by (simp add: char_of_nat_inverse)
  then show ?case using Suc by (simp add: mod_mult2_eq)
qed simp

text \<open>A string of the image ends at its first null byte.\<close>

lemma CString_at:
  assumes "slice p (length t + 1) s = t @ [CHR 0x00]" "CHR 0x00 \<notin> set t"
  shows "CString s p = t"
proof -
  have len: "p + length t < length s"
  proof -
    have "length (slice p (length t + 1) s) = length t + 1" using assms(1) by simp
    then show ?thesis by (simp add: slice_def)
  qed
  have d: "drop p s = t @ CHR 0x00 # drop (p + length t + 1) s"
  proof -
    have "drop p s = take (length t + 1) (drop p s) @ drop (length t + 1) (drop p s)" by (rule append_take_drop_id [symmetric])
    also have "take (length t + 1) (drop p s) = t @ [CHR 0x00]" using assms(1) by (simp only: slice_def)
    also have "drop (length t + 1) (drop p s) = drop (p + length t + 1) s" by (simp add: add.commute add.left_commute)
    finally show ?thesis by simp
  qed
  have "find_from s [CHR 0x00] p = Some (p + length t)"
    using len find_str_char [OF assms(2), of "drop (p + length t + 1) s"] d by (simp add: find_from_def)
  then show ?thesis using len d by (simp add: CString_def)
qed

end
