(* ===== verification/Elf_Fixup.thy ===== *)
theory Elf_Fixup
  imports Binary_Image
begin

text \<open>
  The ELF half of \<open>reloc-fixup\<close> (\<open>elf_fixup.cc\<close>): reading sections and the dynamic section, the new run path and the
  direct paths of needed libraries, the interpreter, and the whole of \<open>FixElf\<close>.  A structure of \<open>elf.h\<close> is its
  bytes with the fields at their offsets, so what is read, changed and written back is exactly what
  \<open>memcpy\<close> moves.  Offsets are computed modulo 64 bits.
\<close>

section \<open>Structures of ELF\<close>

definition e_type :: "string \<Rightarrow> nat" where "e_type eh = field 16 2 eh"
definition e_entry :: "string \<Rightarrow> nat" where "e_entry eh = field 24 8 eh"
definition e_phoff :: "string \<Rightarrow> nat" where "e_phoff eh = field 32 8 eh"
definition e_shoff :: "string \<Rightarrow> nat" where "e_shoff eh = field 40 8 eh"
definition e_phentsize :: "string \<Rightarrow> nat" where "e_phentsize eh = field 54 2 eh"
definition e_phnum :: "string \<Rightarrow> nat" where "e_phnum eh = field 56 2 eh"
definition e_shentsize :: "string \<Rightarrow> nat" where "e_shentsize eh = field 58 2 eh"
definition e_shnum :: "string \<Rightarrow> nat" where "e_shnum eh = field 60 2 eh"

definition p_type :: "string \<Rightarrow> nat" where "p_type ph = field 0 4 ph"
definition p_offset :: "string \<Rightarrow> nat" where "p_offset ph = field 8 8 ph"
definition p_vaddr :: "string \<Rightarrow> nat" where "p_vaddr ph = field 16 8 ph"
definition p_filesz :: "string \<Rightarrow> nat" where "p_filesz ph = field 32 8 ph"

record section_hdr =
  sec_type :: nat
  sec_offset :: nat
  sec_size :: nat
  sec_link :: nat
  sec_entsize :: nat

definition SectionEnd :: "string \<Rightarrow> section_hdr \<Rightarrow> nat" where
  "SectionEnd bytes s =
     (if sec_offset s \<ge> length bytes then 0 else sec_offset s + min (sec_size s) (length bytes - sec_offset s))"

definition read_section :: "string \<Rightarrow> section_hdr" where
  "read_section sh = \<lparr>sec_type = field 4 4 sh, sec_offset = field 24 8 sh, sec_size = field 32 8 sh,
     sec_link = field 40 4 sh, sec_entsize = field 56 8 sh\<rparr>"

fun ReadSections_loop :: "string \<Rightarrow> string \<Rightarrow> nat \<Rightarrow> nat \<Rightarrow> section_hdr list" where
  "ReadSections_loop bytes eh i 0 = []"
| "ReadSections_loop bytes eh i (Suc n) =
     (case Read bytes (add64 (e_shoff eh) (i * e_shentsize eh)) 64 of
        None \<Rightarrow> []
      | Some sh \<Rightarrow> read_section sh # ReadSections_loop bytes eh (i + 1) n)"

definition ReadSections :: "string \<Rightarrow> string \<Rightarrow> section_hdr list" where
  "ReadSections bytes eh = ReadSections_loop bytes eh 0 (e_shnum eh)"

text \<open>The offsets a loop over the entries of a section visits.  A string has less than \<open>2 ^ 63\<close> bytes, and the step is
  never 0; a step near \<open>2 ^ 64\<close> makes the sum wrap, so the loop runs backwards.\<close>

function entry_offsets :: "nat \<Rightarrow> nat \<Rightarrow> nat \<Rightarrow> nat list" where
  "entry_offsets e step off =
     (if off < e \<and> e < 2 ^ 63 \<and> 0 < step \<and> step < 2 ^ 64 then off # entry_offsets e step (add64 off step) else [])"
  by pat_completeness auto
termination entry_offsets
proof (relation "measure (\<lambda>(e, step, off). if off \<ge> e then 0 else Suc (if step < e then e - off else off))")
  fix e step off :: nat
  assume a: "off < e \<and> e < 2 ^ 63 \<and> 0 < step \<and> step < 2 ^ 64"
  show "((e, step, add64 off step), e, step, off) \<in>
      measure (\<lambda>(e, step, off). if off \<ge> e then 0 else Suc (if step < e then e - off else off))"
  proof (cases "off + step < 2 ^ 64")
    case True
    then have "add64 off step = off + step" by (simp add: add64_def)
    then show ?thesis using a by auto
  next
    case False
    have "off + step - 2 ^ 64 < 2 ^ 64" using a by (elim conjE) simp
    then have "add64 off step = off + step - 2 ^ 64" using False by (simp add: add64_def le_mod_geq)
    moreover have "\<not> step < e" using False a by (elim conjE) simp
    moreover have "off + step - n < off" if "step < n" "\<not> off + step < n" "0 < step" for n using that by linarith
    ultimately show ?thesis using a False by auto
  qed
qed simp

declare entry_offsets.simps [simp del]

record needed =
  nd_name :: string
  nd_val_offset :: nat
  nd_vn_files :: "nat list"

record dynamic_info =
  dy_needed :: "needed list"
  dy_dynstr :: nat
  dy_runpath_offset :: "nat option"

definition dyn_entry :: "string \<Rightarrow> nat \<Rightarrow> nat \<Rightarrow> string \<Rightarrow> dynamic_info \<Rightarrow> dynamic_info" where
  "dyn_entry bytes dynstr off dyn info =
     (let tag = field 0 8 dyn;
          val = field 8 8 dyn;
          info = (if tag = 1
                  then info\<lparr>dy_needed := dy_needed info @ [\<lparr>nd_name = CString bytes (add64 dynstr val),
                         nd_val_offset = add64 off 8, nd_vn_files = []\<rparr>]\<rparr>
                  else info)
      in if tag = 29 \<or> tag = 15 then info\<lparr>dy_runpath_offset := Some (add64 dynstr val)\<rparr> else info)"

fun dyn_loop :: "string \<Rightarrow> nat \<Rightarrow> nat list \<Rightarrow> dynamic_info \<Rightarrow> dynamic_info" where
  "dyn_loop bytes dynstr [] info = info"
| "dyn_loop bytes dynstr (off # offs) info =
     (case Read bytes off 16 of
        None \<Rightarrow> info
      | Some dyn \<Rightarrow> if field 0 8 dyn = 0 then info else dyn_loop bytes dynstr offs (dyn_entry bytes dynstr off dyn info))"

definition note_version :: "string \<Rightarrow> nat \<Rightarrow> needed \<Rightarrow> needed" where
  "note_version file off lib = (if nd_name lib = file then lib\<lparr>nd_vn_files := nd_vn_files lib @ [add64 off 4]\<rparr> else lib)"

lemma Read_bound: "Read bytes off n = Some x \<Longrightarrow> off + n \<le> length bytes \<and> length x = n"
  by (auto simp: Read_def split: if_splits)

lemma le_value_less: "le_value s < 256 ^ length s"
proof (induction s)
  case (Cons c s)
  have c: "of_char c < (256 :: nat)" by simp
  have "of_char c + 256 * le_value s < 256 + 256 * le_value s" using c by linarith
  also have "\<dots> = 256 * Suc (le_value s)" by simp
  also have "\<dots> \<le> 256 * 256 ^ length s" using Cons by (intro mult_le_mono) (simp_all add: Suc_le_eq)
  finally show ?case by simp
qed simp

lemma field_less: "field o1 n s < 256 ^ n"
proof -
  have "le_value (take n (drop o1 s)) < 256 ^ length (take n (drop o1 s))" by (rule le_value_less)
  also have "\<dots> \<le> 256 ^ n" by (rule power_increasing) simp_all
  finally show ?thesis by (simp add: field_def)
qed

function verneed_loop :: "string \<Rightarrow> nat \<Rightarrow> nat \<Rightarrow> needed list \<Rightarrow> needed list" where
  "verneed_loop bytes dynstr off libs =
     (if off = 0 \<or> length bytes \<ge> 2 ^ 63 then libs
      else case Read bytes off 16 of
        None \<Rightarrow> libs
      | Some ent \<Rightarrow>
          let file = CString bytes (add64 dynstr (field 4 4 ent)); vn_next = field 12 4 ent
          in verneed_loop bytes dynstr (if vn_next = 0 then 0 else add64 off vn_next) (map (note_version file off) libs))"
  by pat_completeness auto
termination verneed_loop
proof (relation "measure (\<lambda>(bytes, _, off, _). if off = 0 then 0 else length bytes + 1 - off)")
  fix bytes :: string and dynstr off :: nat and libs :: "needed list" and ent fname vn_next
  assume a: "\<not> (off = 0 \<or> length bytes \<ge> 2 ^ 63)" "Read bytes off 16 = Some ent" "vn_next = field 12 4 ent"
  have "vn_next < 2 ^ 32" using field_less [of 12 4 ent] a(3) by simp
  moreover have off: "off + 16 \<le> length bytes" using Read_bound [OF a(2)] by simp
  ultimately have "off + vn_next < 2 ^ 64" using a(1) by simp
  then have "add64 off vn_next = off + vn_next" by (simp add: add64_def)
  then show "((bytes, dynstr, if vn_next = 0 then 0 else add64 off vn_next, map (note_version fname off) libs), bytes, dynstr, off, libs) \<in>
      measure (\<lambda>(bytes, _, off, _). if off = 0 then 0 else length bytes + 1 - off)"
    using a(1) off by auto
qed simp

declare verneed_loop.simps [simp del]

definition find_section :: "nat \<Rightarrow> section_hdr list \<Rightarrow> section_hdr option" where
  "find_section type sections = find (\<lambda>s. sec_type s = type) sections"

definition ReadDynamic :: "string \<Rightarrow> section_hdr list \<Rightarrow> dynamic_info" where
  "ReadDynamic bytes sections =
     (let none = \<lparr>dy_needed = [], dy_dynstr = 0, dy_runpath_offset = None\<rparr> in
      case find_section 6 sections of
        None \<Rightarrow> none
      | Some dynamic \<Rightarrow>
          if sec_link dynamic \<ge> length sections \<or> sec_type (sections ! sec_link dynamic) = 8 then none
          else let dynstr = sec_offset (sections ! sec_link dynamic);
                   info = dyn_loop bytes dynstr (entry_offsets (SectionEnd bytes dynamic) 16 (sec_offset dynamic))
                     (none\<lparr>dy_dynstr := dynstr\<rparr>);
                   start = (case find_section 0x6FFFFFFE sections of None \<Rightarrow> 0 | Some verneed \<Rightarrow> sec_offset verneed)
               in info\<lparr>dy_needed := verneed_loop bytes dynstr start (dy_needed info)\<rparr>)"

fun symbol_loop :: "string \<Rightarrow> nat \<Rightarrow> nat \<Rightarrow> nat \<Rightarrow> nat list \<Rightarrow> string option" where
  "symbol_loop bytes strtab lo hi [] = None"
| "symbol_loop bytes strtab lo hi (off # offs) =
     (case Read bytes off 24 of
        Some symbol \<Rightarrow>
          let name = add64 strtab (field 0 4 symbol) in
          if name > lo \<and> name < hi then Some (CString bytes name) else symbol_loop bytes strtab lo hi offs
      | None \<Rightarrow> symbol_loop bytes strtab lo hi offs)"

definition SymbolInside :: "string \<Rightarrow> section_hdr list \<Rightarrow> nat \<Rightarrow> nat \<Rightarrow> string option" where
  "SymbolInside bytes sections lo hi =
     (case find_section 11 sections of
        None \<Rightarrow> None
      | Some dynsym \<Rightarrow>
          if sec_entsize dynsym < 24 \<or> sec_link dynsym \<ge> length sections then None
          else symbol_loop bytes (sec_offset (sections ! sec_link dynsym)) lo hi
            (entry_offsets (SectionEnd bytes dynsym) (sec_entsize dynsym) (sec_offset dynsym)))"

section \<open>The run path\<close>

record runpath_dir =
  rd_entry :: string
  rd_dir :: string
  rd_keep :: bool

definition IsLibc :: "(string \<Rightarrow> bool) \<Rightarrow> runpath_dir \<Rightarrow> bool" where
  "IsLibc exists d = exists (path_append (rd_dir d) ''libc.so.6'')"

definition kOrigin :: string where
  "kOrigin = ''$ORIGIN''"

definition runpath_dir_of :: "fixup_context \<Rightarrow> string \<Rightarrow> string \<Rightarrow> string" where
  "runpath_dir_of ctx final_here entry =
     (if entry = kOrigin \<or> starts_with entry (kOrigin @ ''/'')
      then lexically_normal (path_append final_here (drop (min (length entry) (length kOrigin + 1)) entry))
      else Final ctx entry)"

definition RelativizeRunpath :: "fixup_context \<Rightarrow> store \<Rightarrow> string \<Rightarrow> string \<Rightarrow> runpath_dir list" where
  "RelativizeRunpath ctx st old here =
     (let final_here = Final ctx here in
      map (\<lambda>dir. \<lparr>rd_entry = RelativeTo final_here dir kOrigin, rd_dir = OnDisk ctx dir, rd_keep = True\<rparr>)
        (filter (IsStorePath st) (map (runpath_dir_of ctx final_here) (Split old CHR '':'' False))) @
      map (\<lambda>own. \<lparr>rd_entry = RelativeTo final_here (Final ctx own) kOrigin, rd_dir = own, rd_keep = False\<rparr>)
        (fc_own_lib_dirs ctx))"

definition RenderRunpath :: "runpath_dir list \<Rightarrow> string" where
  "RenderRunpath runpath =
     Join (foldl (\<lambda>kept dir. if rd_keep dir \<and> rd_entry dir \<notin> set kept then kept @ [rd_entry dir] else kept) [] runpath) '':''"

definition report :: "string \<Rightarrow> unit frun" where
  "report msg = in_tree (print_err (msg @ [CHR 0x0A]))"

definition skip_needed :: "string \<Rightarrow> bool" where
  "skip_needed name \<longleftrightarrow> contains name ''/'' \<or> starts_with name ''ld-linux'' \<or> starts_with name ''linux-vdso''"

definition find_pos :: "('a \<Rightarrow> bool) \<Rightarrow> 'a list \<Rightarrow> nat option" where
  "find_pos P xs = (let i = length (takeWhile (\<lambda>x. \<not> P x) xs) in if i < length xs then Some i else None)"

text \<open>The needed libraries with the index of the directory that has them, and the directories they leave.\<close>

fun place_needed ::
  "fixup_context \<Rightarrow> string \<Rightarrow> string \<Rightarrow> (string \<Rightarrow> bool) \<Rightarrow> needed list \<Rightarrow> runpath_dir list \<Rightarrow> (needed \<times> nat) list \<Rightarrow>
     (runpath_dir list \<times> (needed \<times> nat) list) frun" where
  "place_needed ctx path old exists [] runpath direct = State_Monad.return (runpath, direct)"
| "place_needed ctx path old exists (lib # libs) runpath direct =
     (if skip_needed (nd_name lib) then place_needed ctx path old exists libs runpath direct
      else case find_pos (\<lambda>d. exists (path_append (rd_dir d) (nd_name lib))) runpath of
        None \<Rightarrow> do {
          report (path @ '': NEEDED '' @ nd_name lib @ '' not found in RUNPATH ['' @ old @ ''] nor under '' @ fc_prefix ctx);
          count_error;
          place_needed ctx path old exists libs runpath direct
        }
      | Some i \<Rightarrow>
          if IsLibc exists (runpath ! i) then place_needed ctx path old exists libs runpath direct
          else place_needed ctx path old exists libs (runpath[i := (runpath ! i)\<lparr>rd_keep := False\<rparr>]) (direct @ [(lib, i)]))"

definition needed_target :: "runpath_dir list \<Rightarrow> needed \<times> nat \<Rightarrow> string" where
  "needed_target runpath dep = rd_entry (runpath ! snd dep) @ ''/'' @ nd_name (fst dep)"

text \<open>The new run path, the bytes that replace the old one, and the libraries with their new names.\<close>

definition needed_layout :: "runpath_dir list \<Rightarrow> (needed \<times> nat) list \<Rightarrow> string \<Rightarrow> string \<times> string \<times> (needed \<times> string) list" where
  "needed_layout runpath direct old =
     (let neu = RenderRunpath runpath;
          deps = map (\<lambda>dep. (fst dep, needed_target runpath dep)) direct;
          blob = neu @ concat (map (\<lambda>dep. CHR 0x00 # snd dep) deps)
      in if length blob > length old
         then let neu = RenderRunpath (foldl (\<lambda>rp dep. rp[snd dep := (rp ! snd dep)\<lparr>rd_keep := True\<rparr>]) runpath direct)
              in (neu, neu, [])
         else (neu, blob, deps))"

definition sub64 :: "nat \<Rightarrow> nat \<Rightarrow> nat" where
  "sub64 a b = (a + (2 ^ 64 - b mod 2 ^ 64)) mod 2 ^ 64"

definition write_name :: "string \<Rightarrow> nat \<Rightarrow> needed \<Rightarrow> string" where
  "write_name bytes str lib =
     foldl (\<lambda>bytes vn_file. snd (Write bytes vn_file (le_bytes 4 (str mod 2 ^ 32))))
       (snd (Write bytes (nd_val_offset lib) (le_bytes 8 str))) (nd_vn_files lib)"

fun write_needed :: "string \<Rightarrow> nat \<Rightarrow> (needed \<times> string) list \<Rightarrow> string" where
  "write_needed bytes str [] = bytes"
| "write_needed bytes str ((lib, target) # deps) =
     write_needed (write_name bytes str lib) (add64 str (length target + 1)) deps"

definition runpath_log :: "string list \<Rightarrow> string \<Rightarrow> (needed \<times> string) list \<Rightarrow> string list" where
  "runpath_log log neu deps = log @ [''RUNPATH '' @ neu] @ map (\<lambda>dep. ''NEEDED '' @ snd dep) deps"

text \<open>The result, the image, the log and whether the image was changed.\<close>

definition FixRunpath ::
  "sys \<Rightarrow> fixup_context \<Rightarrow> string \<Rightarrow> string \<Rightarrow> section_hdr list \<Rightarrow> string list \<Rightarrow> bool \<Rightarrow> (bool \<times> string \<times> string list \<times> bool) frun" where
  "FixRunpath sys ctx path bytes sections log dirty =
     (let dynamic = ReadDynamic bytes sections in
      case dy_runpath_offset dynamic of
        None \<Rightarrow> State_Monad.return (True, bytes, log, dirty)
      | Some runpath_offset \<Rightarrow> do {
          let old = CString bytes runpath_offset;
          st \<leftarrow> in_tree (gets w_store);
          exists \<leftarrow> in_tree (gets (path_exists sys));
          (runpath, direct) \<leftarrow> place_needed ctx path old exists (dy_needed dynamic)
            (RelativizeRunpath ctx st old (parent_path path)) [];
          (case needed_layout runpath direct old of
             (neu, blob, deps) \<Rightarrow>
               if blob = old then State_Monad.return (True, bytes, runpath_log log neu deps, dirty)
               else case SymbolInside bytes sections runpath_offset (add64 runpath_offset (length old)) of
                 Some symbol \<Rightarrow> do {
                   report (path @ '': symbol '' @ [CHR 0x27] @ symbol @ [CHR 0x27] @
                     '' shares bytes with RUNPATH (suffix-merged .dynstr, not lld?)'');
                   count_error;
                   State_Monad.return (False, bytes, log, dirty)
                 }
               | None \<Rightarrow>
                   (case WritePadded bytes runpath_offset (length old + 1) blob of
                      (False, _) \<Rightarrow> do {
                        report (path @ '': RUNPATH does not fit ('' @ to_string (length blob) @ '' > '' @ to_string (length old) @
                          ''): '' @ neu);
                        count_error;
                        State_Monad.return (False, bytes, log, dirty)
                      }
                    | (True, bytes) \<Rightarrow> State_Monad.return (True,
                        write_needed bytes (sub64 (runpath_offset + length neu + 1) (dy_dynstr dynamic)) deps,
                        runpath_log log neu deps, True)))
        })"

section \<open>The interpreter\<close>

definition kRelocStubMagic :: string where
  "kRelocStubMagic = ''RELOCSTB''"

definition kRelocStubHeader :: nat where
  "kRelocStubHeader = 16"

definition phdr_at :: "string \<Rightarrow> nat \<Rightarrow> nat" where
  "phdr_at eh i = add64 (e_phoff eh) (i * e_phentsize eh)"

fun FileOffset_loop :: "string \<Rightarrow> string \<Rightarrow> nat \<Rightarrow> nat \<Rightarrow> nat \<Rightarrow> nat option" where
  "FileOffset_loop bytes eh vaddr i 0 = None"
| "FileOffset_loop bytes eh vaddr i (Suc n) =
     (case Read bytes (phdr_at eh i) 56 of
        Some ph \<Rightarrow>
          if p_type ph = 1 \<and> vaddr \<ge> p_vaddr ph \<and> vaddr - p_vaddr ph < p_filesz ph
          then Some (add64 (p_offset ph) (vaddr - p_vaddr ph))
          else FileOffset_loop bytes eh vaddr (i + 1) n
      | None \<Rightarrow> FileOffset_loop bytes eh vaddr (i + 1) n)"

definition FileOffset :: "string \<Rightarrow> string \<Rightarrow> nat \<Rightarrow> nat option" where
  "FileOffset bytes eh vaddr = FileOffset_loop bytes eh vaddr 0 (e_phnum eh)"

fun reloc_start_loop :: "string \<Rightarrow> nat \<Rightarrow> nat list \<Rightarrow> nat option" where
  "reloc_start_loop bytes strtab [] = None"
| "reloc_start_loop bytes strtab (off # offs) =
     (case Read bytes off 24 of
        None \<Rightarrow> None
      | Some symbol \<Rightarrow>
          if CString bytes (add64 strtab (field 0 4 symbol)) = ''__reloc_start'' then Some (field 8 8 symbol)
          else reloc_start_loop bytes strtab offs)"

text \<open>Whether the entry is behind a stub header.  \<open>substr\<close> throws for a position behind the end, which nothing
  catches: \<open>Inl\<close> stands for the end of the program.\<close>

definition has_stub :: "string \<Rightarrow> string \<Rightarrow> unit + bool" where
  "has_stub bytes eh =
     (if e_entry eh < kRelocStubHeader then Inr False
      else case FileOffset bytes eh (e_entry eh - kRelocStubHeader) of
        None \<Rightarrow> Inr False
      | Some off \<Rightarrow>
          if off > length bytes then Inl ()
          else Inr (take (length kRelocStubMagic) (drop off bytes) = kRelocStubMagic))"

definition exported_start :: "string \<Rightarrow> section_hdr list \<Rightarrow> nat option" where
  "exported_start bytes sections =
     (case find_section 11 sections of
        None \<Rightarrow> None
      | Some dynsym \<Rightarrow>
          if sec_entsize dynsym < 24 \<or> sec_link dynsym \<ge> length sections then None
          else reloc_start_loop bytes (sec_offset (sections ! sec_link dynsym))
            (entry_offsets (SectionEnd bytes dynsym) (sec_entsize dynsym) (sec_offset dynsym)))"

definition FindRelocStart :: "string \<Rightarrow> string \<Rightarrow> section_hdr list \<Rightarrow> unit + nat option" where
  "FindRelocStart bytes eh sections =
     (case has_stub bytes eh of
        Inl e \<Rightarrow> Inl e
      | Inr stub \<Rightarrow> Inr (if stub then Some (e_entry eh) else exported_start bytes sections))"

text \<open>One interpreter segment: the new name, if it fits, and the image with the segment disabled.\<close>

definition interp_name :: "fixup_context \<Rightarrow> store \<Rightarrow> string \<Rightarrow> string \<Rightarrow> string" where
  "interp_name ctx st path old =
     (if IsStorePath st old then RelativeTo (Final ctx (parent_path path)) old [] else old)"

definition disable_interp :: "string \<Rightarrow> string \<Rightarrow> nat \<Rightarrow> string \<Rightarrow> nat \<Rightarrow> string" where
  "disable_interp bytes eh ph_off ph stub =
     snd (Write (snd (Write bytes ph_off (set_field 0 4 0 ph))) 0 (set_field 24 8 stub eh))"

fun FixInterp_loop ::
  "fixup_context \<Rightarrow> store \<Rightarrow> string \<Rightarrow> string \<Rightarrow> nat option \<Rightarrow> nat \<Rightarrow> nat \<Rightarrow> string \<times> string list \<times> bool \<Rightarrow>
     (bool \<times> string \<times> string list \<times> bool) frun" where
  "FixInterp_loop ctx st path eh stub i 0 r = State_Monad.return (True, r)"
| "FixInterp_loop ctx st path eh stub i (Suc n) (bytes, log, dirty) =
     (case Read bytes (phdr_at eh i) 56 of
        None \<Rightarrow> State_Monad.return (True, bytes, log, dirty)
      | Some ph \<Rightarrow>
          if p_type ph \<noteq> 3 then FixInterp_loop ctx st path eh stub (i + 1) n (bytes, log, dirty)
          else let old = CString bytes (p_offset ph); neu = interp_name ctx st path old in
            case stub of
              None \<Rightarrow> FixInterp_loop ctx st path eh stub (i + 1) n (bytes, log @ [''INTERP '' @ old @ '' kept (no stub)''], dirty)
            | Some entry \<Rightarrow>
                (case (if IsStorePath st old then WritePadded bytes (p_offset ph) (p_filesz ph) neu else (True, bytes)) of
                   (False, _) \<Rightarrow> do {
                     report (path @ '': interp does not fit: '' @ neu);
                     count_error;
                     State_Monad.return (False, bytes, log, dirty)
                   }
                 | (True, bytes) \<Rightarrow>
                     FixInterp_loop ctx st path eh stub (i + 1) n
                       (disable_interp bytes eh (phdr_at eh i) ph entry,
                        log @ [''INTERP '' @ neu @ '' (PT_NULL, entry=__reloc_start)''], True)))"

definition FixInterp ::
  "fixup_context \<Rightarrow> string \<Rightarrow> string \<Rightarrow> string \<Rightarrow> section_hdr list \<Rightarrow> string list \<Rightarrow> bool \<Rightarrow>
     (unit + bool \<times> string \<times> string list \<times> bool) frun" where
  "FixInterp ctx path bytes eh sections log dirty = do {
     st \<leftarrow> in_tree (gets w_store);
     (case FindRelocStart bytes eh sections of
        Inl e \<Rightarrow> State_Monad.return (Inl e)
      | Inr stub \<Rightarrow> do {
          r \<leftarrow> FixInterp_loop ctx st path eh stub 0 (e_phnum eh) (bytes, log, dirty);
          State_Monad.return (Inr r)
        })
   }"

section \<open>A file\<close>

definition kLeakContext :: nat where
  "kLeakContext = 100"

definition warn_leak :: "(string \<Rightarrow> string \<Rightarrow> string) \<Rightarrow> fixup_context \<Rightarrow> string \<Rightarrow> string \<Rightarrow> unit frun" where
  "warn_leak relative ctx path bytes = do {
     st \<leftarrow> in_tree (gets w_store);
     (case find_str (st_dir st @ ''/'') bytes of
        None \<Rightarrow> State_Monad.return ()
      | Some leak \<Rightarrow>
          in_tree (print_out (''  WARN absolute store ref in '' @ relative path (fc_prefix ctx) @ '' @0x'' @ to_base 16 leak @ '': '' @
            take kLeakContext (CString bytes leak) @ [CHR 0x0A])))
   }"

text \<open>The last steps of a file whose image is final.\<close>

definition finish_elf ::
  "sys \<Rightarrow> (string \<Rightarrow> string \<Rightarrow> string) \<Rightarrow> fixup_context \<Rightarrow> string \<Rightarrow> string \<Rightarrow> string list \<Rightarrow> bool \<Rightarrow> bool frun" where
  "finish_elf sys relative ctx path bytes log dirty = do {
     written \<leftarrow> (if dirty then WriteBack sys path bytes else State_Monad.return True);
     if \<not> written then do { count_error; State_Monad.return False }
     else do {
       (if dirty then in_tree (print_out (Join log ''  '' @ [CHR 0x0A])) else State_Monad.return ());
       warn_leak relative ctx path bytes;
       State_Monad.return True
     }
   }"

text \<open>\<open>fs::relative\<close> asks the file system and is a parameter.\<close>

definition FixElf :: "sys \<Rightarrow> (string \<Rightarrow> string \<Rightarrow> string) \<Rightarrow> fixup_context \<Rightarrow> string \<Rightarrow> string \<Rightarrow> (unit + bool) frun" where
  "FixElf sys relative ctx path bytes =
     (if \<not> IsElf64LittleEndian bytes then State_Monad.return (Inr False)
      else case Read bytes 0 64 of
        None \<Rightarrow> State_Monad.return (Inr True)
      | Some eh \<Rightarrow>
          if e_type eh \<noteq> 2 \<and> e_type eh \<noteq> 3 then State_Monad.return (Inr True)
          else do {
            let sections = ReadSections bytes eh;
            (ok, bytes, log, dirty) \<leftarrow> FixRunpath sys ctx path bytes sections [relative path (fc_prefix ctx)] False;
            if \<not> ok then State_Monad.return (Inr True)
            else do {
              r \<leftarrow> FixInterp ctx path bytes eh sections log dirty;
              (case r of
                 Inl e \<Rightarrow> State_Monad.return (Inl e)
               | Inr (ok, bytes, log, dirty) \<Rightarrow>
                   if \<not> ok then State_Monad.return (Inr True)
                   else do {
                     handled \<leftarrow> finish_elf sys relative ctx path bytes log dirty;
                     State_Monad.return (Inr handled)
                   })
            }
          })"

section \<open>What the rewritten strings read as\<close>

text \<open>A sequence of writes that do not touch each other.\<close>

abbreviation write_all :: "string \<Rightarrow> (nat \<times> string) list \<Rightarrow> string" where
  "write_all bytes ws \<equiv> foldl (\<lambda>b w. snd (Write b (fst w) (snd w))) bytes ws"

definition apart :: "nat \<times> nat \<Rightarrow> nat \<times> nat \<Rightarrow> bool" where
  "apart = (\<lambda>(p, n) (q, m). p + n \<le> q \<or> q + m \<le> p)"

abbreviation span :: "nat \<times> string \<Rightarrow> nat \<times> nat" where
  "span w \<equiv> (fst w, length (snd w))"

lemma write_all_length [simp]: "length (write_all bytes ws) = length bytes"
  by (induction ws arbitrary: bytes) simp_all

lemma write_all_other: "\<forall>w \<in> set ws. apart (q, n) (span w) \<Longrightarrow> slice q n (write_all bytes ws) = slice q n bytes"
proof (induction ws arbitrary: bytes)
  case (Cons w ws)
  have "slice q n (snd (Write bytes (fst w) (snd w))) = slice q n bytes"
    using Cons.prems by (intro Write_slice_other) (auto simp: apart_def)
  with Cons show ?case by simp
qed simp

lemma write_all_same:
  assumes "sorted_wrt apart (map span ws)" "\<forall>w \<in> set ws. fst w + length (snd w) \<le> length bytes" "w \<in> set ws"
  shows "slice (fst w) (length (snd w)) (write_all bytes ws) = snd w"
  using assms
proof (induction ws arbitrary: bytes)
  case (Cons x ws)
  show ?case
  proof (cases "w \<in> set ws")
    case True
    then show ?thesis using Cons by simp
  next
    case False
    then have "w = x" using Cons.prems(3) by simp
    moreover have "\<forall>y \<in> set ws. apart (span x) (span y)" using Cons.prems(1) by simp
    ultimately show ?thesis
      using write_all_other [of ws "fst x" "length (snd x)"] Write_slice_same Cons.prems(2) by simp
  qed
qed simp

text \<open>The writes of the new names: the value of each entry, and the entries of the version table that name it.\<close>

definition lib_writes :: "nat \<Rightarrow> needed \<Rightarrow> (nat \<times> string) list" where
  "lib_writes str lib = (nd_val_offset lib, le_bytes 8 str) # map (\<lambda>v. (v, le_bytes 4 (str mod 2 ^ 32))) (nd_vn_files lib)"

fun name_writes :: "nat \<Rightarrow> (needed \<times> string) list \<Rightarrow> (nat \<times> string) list" where
  "name_writes str [] = []"
| "name_writes str ((lib, target) # deps) = lib_writes str lib @ name_writes (add64 str (length target + 1)) deps"

lemma write_name_writes: "write_name bytes str lib = write_all bytes (lib_writes str lib)"
  by (simp add: write_name_def lib_writes_def foldl_map)

lemma write_needed_writes: "write_needed bytes str deps = write_all bytes (name_writes str deps)"
  by (induction bytes str deps rule: write_needed.induct) (simp_all add: write_name_writes)

text \<open>The places that are written, whatever the values.\<close>

definition lib_spans :: "needed \<Rightarrow> (nat \<times> nat) list" where
  "lib_spans lib = (nd_val_offset lib, 8) # map (\<lambda>v. (v, 4)) (nd_vn_files lib)"

lemma name_writes_spans: "map span (name_writes str deps) = concat (map (\<lambda>dep. lib_spans (fst dep)) deps)"
  by (induction str deps rule: name_writes.induct) (simp_all add: lib_writes_def lib_spans_def comp_def)

text \<open>An image with the strings of the libraries from \<open>pos\<close> on, where \<open>str\<close> is the position relative to the string table.\<close>

lemma names_read_back:
  assumes "slice pos (length (concat (map (\<lambda>dep. snd dep @ [CHR 0x00]) deps))) bytes = concat (map (\<lambda>dep. snd dep @ [CHR 0x00]) deps)"
    and "pos = dynstr + str" "pos + length (concat (map (\<lambda>dep. snd dep @ [CHR 0x00]) deps)) < 2 ^ 32"
    and "\<forall>dep \<in> set deps. CHR 0x00 \<notin> set (snd dep)"
    and "\<forall>w \<in> set (name_writes str deps). slice (fst w) (length (snd w)) bytes = snd w"
    and "(lib, target) \<in> set deps"
  shows "CString bytes (add64 dynstr (field 0 8 (slice (nd_val_offset lib) 8 bytes))) = target \<and>
    (\<forall>v \<in> set (nd_vn_files lib). CString bytes (add64 dynstr (field 0 4 (slice v 4 bytes))) = target)"
  using assms
proof (induction deps arbitrary: pos str)
  case (Cons dep deps)
  obtain l t where dep: "dep = (l, t)" by (rule prod.exhaust)
  let ?rest = "concat (map (\<lambda>dep. snd dep @ [CHR 0x00]) deps)"
  have whole: "slice pos (length t + 1 + length ?rest) bytes = (t @ [CHR 0x00]) @ ?rest"
    using Cons.prems(1) by (simp add: dep)
  have head: "slice pos (length t + 1) bytes = t @ [CHR 0x00]"
  proof -
    have "slice pos (length t + 1) bytes = take (length t + 1) (slice pos (length t + 1 + length ?rest) bytes)"
      by (simp add: slice_def)
    then show ?thesis unfolding whole by simp
  qed
  have tail: "slice (pos + length t + 1) (length ?rest) bytes = ?rest"
  proof -
    have "slice (pos + length t + 1) (length ?rest) bytes = drop (length t + 1) (slice pos (length t + 1 + length ?rest) bytes)"
      by (simp add: slice_def drop_take add.commute add.left_commute)
    then show ?thesis unfolding whole by simp
  qed
  have small: "pos < 2 ^ 32" "pos + length t + 1 < 2 ^ 32" "str < 2 ^ 32" using Cons.prems(2,3) by (simp_all add: dep)
  have next_str: "add64 str (length t + 1) = str + length t + 1"
    using small Cons.prems(2) by (simp add: add64_def)
  show ?case
  proof (cases "(lib, target) \<in> set deps")
    case True
    show ?thesis
    proof (rule Cons.IH [OF tail])
      show "pos + length t + 1 = dynstr + (str + length t + 1)" using Cons.prems(2) by simp
      show "pos + length t + 1 + length ?rest < 2 ^ 32" using Cons.prems(3) by (simp add: dep)
      show "\<forall>w \<in> set (name_writes (str + length t + 1) deps). slice (fst w) (length (snd w)) bytes = snd w"
        using Cons.prems(5) unfolding dep name_writes.simps next_str by simp
    qed (use Cons.prems(4) True in simp_all)
  next
    case False
    then have eq: "lib = l" "target = t" using Cons.prems(6) by (simp_all add: dep)
    have "\<forall>w \<in> set (lib_writes str l). slice (fst w) (length (snd w)) bytes = snd w" using Cons.prems(5) by (simp add: dep)
    then have val: "slice (nd_val_offset l) 8 bytes = le_bytes 8 str" "\<forall>v \<in> set (nd_vn_files l). slice v 4 bytes = le_bytes 4 (str mod 2 ^ 32)"
      by (simp_all add: lib_writes_def)
    have "field 0 8 (le_bytes 8 str) = str" "field 0 4 (le_bytes 4 (str mod 2 ^ 32)) = str"
      using small(3) by (simp_all add: field_def le_value_bytes)
    moreover have "add64 dynstr str = pos" using small(1) Cons.prems(2) by (simp add: add64_def)
    moreover have "CString bytes pos = t" by (rule CString_at [OF head]) (use Cons.prems(4) in \<open>simp add: dep\<close>)
    ultimately show ?thesis using val by (simp add: eq)
  qed
qed simp

text \<open>The slot of the old string after the new strings were put into it.\<close>

lemma slot_strings:
  assumes "WritePadded bytes p (length old + 1) blob = (True, b1)"
    and "blob = neu @ concat (map (\<lambda>dep. CHR 0x00 # snd dep) deps)" "CHR 0x00 \<notin> set neu"
    and "slice p (length old + 1) b2 = slice p (length old + 1) b1"
  defines "rest \<equiv> concat (map (\<lambda>dep. snd dep @ [CHR 0x00]) deps)"
  shows "CString b2 p = neu" "slice (p + length neu + 1) (length rest) b2 = rest"
    "p + length neu + 1 + length rest \<le> length bytes"
proof -
  have fits: "length blob \<le> length old" "p + length old + 1 \<le> length bytes"
    using assms(1) by (auto simp: WritePadded_def split: if_splits)
  let ?pad = "blob @ replicate (length old + 1 - length blob) CHR 0x00"
  have slot: "slice p (length old + 1) b2 = ?pad"
  proof -
    have "b1 = snd (Write bytes p ?pad)" "length ?pad = length old + 1"
      using assms(1) fits by (auto simp: WritePadded_is_Write split: if_splits)
    then show ?thesis using Write_slice_same [of p ?pad bytes] fits(2) unfolding assms(4) by simp
  qed
  have "concat (map (\<lambda>dep. CHR 0x00 # snd dep) deps) @ [CHR 0x00] = CHR 0x00 # rest"
    unfolding rest_def by (induction deps) simp_all
  then have text0: "blob @ [CHR 0x00] = neu @ CHR 0x00 # rest" by (simp add: assms(2))
  have "length (blob @ [CHR 0x00]) = length (neu @ CHR 0x00 # rest)" unfolding text0 ..
  then have len: "length blob = length neu + length rest" by simp
  have "replicate (length old + 1 - length blob) CHR 0x00 = CHR 0x00 # replicate (length old - length blob) CHR 0x00"
    using fits(1) by (simp add: Suc_diff_le)
  then have pad: "?pad = (neu @ [CHR 0x00]) @ rest @ replicate (length old - length blob) CHR 0x00"
  proof -
    have "blob @ CHR 0x00 # replicate (length old - length blob) CHR 0x00 =
        (blob @ [CHR 0x00]) @ replicate (length old - length blob) CHR 0x00" by simp
    then show ?thesis unfolding \<open>replicate (length old + 1 - length blob) CHR 0x00 = _\<close> text0 by simp
  qed
  have "slice p (length neu + 1) b2 = take (length neu + 1) (slice p (length old + 1) b2)"
    using len fits(1) by (simp add: slice_def)
  then have "slice p (length neu + 1) b2 = neu @ [CHR 0x00]" unfolding slot pad by simp
  then show "CString b2 p = neu" by (rule CString_at [OF _ assms(3)])
  have "slice (p + length neu + 1) (length rest) b2 = take (length rest) (drop (length neu + 1) (slice p (length old + 1) b2))"
    using len fits(1) by (simp add: slice_def drop_take add.commute add.left_commute)
  then show "slice (p + length neu + 1) (length rest) b2 = rest" unfolding slot pad by simp
  show "p + length neu + 1 + length rest \<le> length bytes" using len fits by simp
qed

lemma sub64_le:
  assumes "b \<le> a" "a < 2 ^ 64"
  shows "sub64 a b = a - b"
proof -
  have b: "b mod 2 ^ 64 = b" using assms by (intro mod_less) (rule le_less_trans)
  have "a + (n - b) = (a - b) + n" if "a < n" for n using that assms(1) by linarith
  then have "a + (2 ^ 64 - b) = (a - b) + 2 ^ 64" using assms(2) by blast
  moreover have "a - b < 2 ^ 64" using assms(2) by (rule le_less_trans [OF diff_le_self])
  ultimately show ?thesis unfolding sub64_def b by (simp only: mod_add_self2 mod_less)
qed

lemma needed_layout_blob:
  "needed_layout runpath direct old = (neu, blob, deps) \<Longrightarrow> blob = neu @ concat (map (\<lambda>dep. CHR 0x00 # snd dep) deps)"
  by (auto simp: needed_layout_def Let_def split: if_splits)

text \<open>The strings of the new names lie apart from the entries that refer to them, and those from each other.\<close>

definition room_for_names :: "string \<Rightarrow> nat \<Rightarrow> nat \<Rightarrow> (needed \<times> string) list \<Rightarrow> bool" where
  "room_for_names bytes p n deps \<longleftrightarrow>
     (let spans = concat (map (\<lambda>dep. lib_spans (fst dep)) deps) in
      sorted_wrt apart spans \<and> (\<forall>s \<in> set spans. apart (p, n) s \<and> fst s + snd s \<le> length bytes))"

lemma rewritten_names:
  assumes "WritePadded bytes p (length old + 1) blob = (True, b1)"
    and "blob = neu @ concat (map (\<lambda>dep. CHR 0x00 # snd dep) deps)" "CHR 0x00 \<notin> set neu" "\<forall>dep \<in> set deps. CHR 0x00 \<notin> set (snd dep)"
    and "room_for_names bytes p (length old + 1) deps" "dynstr \<le> p" "length bytes < 2 ^ 32"
    and b2: "b2 = write_needed b1 (sub64 (p + length neu + 1) dynstr) deps"
  shows "CString b2 p = neu"
    and "(lib, target) \<in> set deps \<Longrightarrow> CString b2 (add64 dynstr (field 0 8 (slice (nd_val_offset lib) 8 b2))) = target \<and>
      (\<forall>v \<in> set (nd_vn_files lib). CString b2 (add64 dynstr (field 0 4 (slice v 4 b2))) = target)"
    and "length b2 = length bytes"
    and "apart (q, n) (p, length old + 1) \<Longrightarrow> \<forall>s \<in> set (concat (map (\<lambda>dep. lib_spans (fst dep)) deps)). apart (q, n) s \<Longrightarrow>
      slice q n b2 = slice q n bytes"
proof -
  let ?str = "sub64 (p + length neu + 1) dynstr" and ?rest = "concat (map (\<lambda>dep. snd dep @ [CHR 0x00]) deps)"
  let ?ws = "name_writes ?str deps" and ?spans = "concat (map (\<lambda>dep. lib_spans (fst dep)) deps)"
  have spans: "map span ?ws = ?spans" by (rule name_writes_spans)
  then have set_spans: "span ` set ?ws = set ?spans" by (metis list.set_map)
  have b2w: "b2 = write_all b1 ?ws" by (simp add: b2 write_needed_writes)
  have b1: "length b1 = length bytes" using assms(1) WritePadded_length [of bytes p "length old + 1" blob] by simp
  have room: "sorted_wrt apart (map span ?ws)" "\<forall>w \<in> set ?ws. apart (p, length old + 1) (span w)"
    "\<forall>w \<in> set ?ws. fst w + length (snd w) \<le> length b1"
  proof -
    have r: "sorted_wrt apart ?spans" "\<forall>s \<in> set ?spans. apart (p, length old + 1) s \<and> fst s + snd s \<le> length bytes"
      using assms(5) unfolding room_for_names_def Let_def by blast+
    have "span w \<in> set ?spans" if "w \<in> set ?ws" for w using that set_spans by blast
    then show "sorted_wrt apart (map span ?ws)" "\<forall>w \<in> set ?ws. apart (p, length old + 1) (span w)"
      "\<forall>w \<in> set ?ws. fst w + length (snd w) \<le> length b1"
      using r unfolding spans b1 by (blast, blast, fastforce)
  qed
  have slot: "slice p (length old + 1) b2 = slice p (length old + 1) b1"
    unfolding b2w by (rule write_all_other [OF room(2)])
  note strings = slot_strings [OF assms(1-3) slot]
  show "CString b2 p = neu" by (rule strings(1))
  show "length b2 = length bytes" by (simp add: b2w b1)
  have "?str = p + length neu + 1 - dynstr"
    using assms(6,7) strings(3) by (intro sub64_le) simp_all
  then have pos: "p + length neu + 1 = dynstr + ?str" using assms(6) by simp
  have kept: "\<forall>w \<in> set ?ws. slice (fst w) (length (snd w)) b2 = snd w"
    unfolding b2w using write_all_same [OF room(1,3)] by blast
  have "p + length neu + 1 + length ?rest < 2 ^ 32" using strings(3) assms(7) by simp
  then show "(lib, target) \<in> set deps \<Longrightarrow> CString b2 (add64 dynstr (field 0 8 (slice (nd_val_offset lib) 8 b2))) = target \<and>
      (\<forall>v \<in> set (nd_vn_files lib). CString b2 (add64 dynstr (field 0 4 (slice v 4 b2))) = target)"
    using names_read_back [OF strings(2) pos _ assms(4) kept] by blast
  assume q: "apart (q, n) (p, length old + 1)" "\<forall>s \<in> set ?spans. apart (q, n) s"
  have "\<forall>w \<in> set ?ws. apart (q, n) (span w)" using q(2) set_spans by blast
  then have "slice q n b2 = slice q n b1" unfolding b2w by (rule write_all_other)
  also have "b1 = snd (Write bytes p (blob @ replicate (length old + 1 - length blob) CHR 0x00))"
    using assms(1) by (auto simp: WritePadded_is_Write split: if_splits)
  also have "slice q n \<dots> = slice q n bytes"
  proof (rule Write_slice_other)
    have "length blob \<le> length old" using assms(1) by (auto simp: WritePadded_def split: if_splits)
    then show "q + n \<le> p \<or> p + length (blob @ replicate (length old + 1 - length blob) CHR 0x00) \<le> q"
      using q(1) by (auto simp: apart_def)
  qed
  finally show "slice q n b2 = slice q n bytes" .
qed

lemma frun_bind [run_simps]:
  "run_state (State_Monad.bind m f) (s :: fix_state) = run_state (f (fst (run_state m s))) (snd (run_state m s))"
  by (simp add: case_prod_beta)

lemma run_in_tree_gets [run_simps]: "run_state (in_tree (gets f)) s = (f (ts_world (fx_tree s)), s)"
  by (simp add: in_tree_def in_world_def run_simps)


definition demo_lib_dir :: string where
  "demo_lib_dir = ''/nix/store/0123456789abcdfghijklmnpqrsvwxyz-x/lib''"

definition demo_elf :: string where
  "demo_elf = [CHR 0x00] @ ''libx.so'' @ [CHR 0x00] @ demo_lib_dir @ replicate 30 CHR '':'' @ replicate 8 CHR 0x00 @
     le_bytes 8 1 @ le_bytes 8 1 @ le_bytes 8 29 @ le_bytes 8 9 @ le_bytes 16 0"

definition demo_sections :: "section_hdr list" where
  "demo_sections = [\<lparr>sec_type = 6, sec_offset = 96, sec_size = 48, sec_link = 1, sec_entsize = 16\<rparr>,
     \<lparr>sec_type = 3, sec_offset = 0, sec_size = 89, sec_link = 0, sec_entsize = 0\<rparr>]"

definition demo_ctx :: fixup_context where
  "demo_ctx = \<lparr>fc_prefix = ''/nix/store/0123456789abcdfghijklmnpqrsvwxyz-p'', fc_dest = ''/nix/store/0123456789abcdfghijklmnpqrsvwxyz-p'',
     fc_own_lib_dirs = [], fc_denied = [], fc_sdk = []\<rparr>"

definition demo_bin :: string where
  "demo_bin = ''/nix/store/0123456789abcdfghijklmnpqrsvwxyz-p/bin/a''"

definition demo_fix :: fix_state where
  "demo_fix = \<lparr>fx_tree = \<lparr>ts_world = demo_world\<lparr>w_files := [demo_lib_dir @ ''/libx.so'' \<mapsto> ''lib'']\<rparr>,
     ts_links = Map.empty, ts_modes = Map.empty\<rparr>, fx_errors = 0\<rparr>"

lemma demo_dynamic:
  "ReadDynamic demo_elf demo_sections = \<lparr>dy_needed = [\<lparr>nd_name = ''libx.so'', nd_val_offset = 104, nd_vn_files = []\<rparr>],
     dy_dynstr = 0, dy_runpath_offset = Some 9\<rparr>"
proof -
  have e: "SectionEnd demo_elf \<lparr>sec_type = 6, sec_offset = 96, sec_size = 48, sec_link = Suc 0, sec_entsize = 16\<rparr> = 144" by code_simp
  have offs: "entry_offsets 144 16 96 = [96, 112, 128]" by (simp add: entry_offsets.simps add64_def)
  have r: "Read demo_elf 96 16 = Some (le_bytes 8 (Suc 0) @ le_bytes 8 (Suc 0))" "Read demo_elf 112 16 = Some (le_bytes 8 29 @ le_bytes 8 9)"
    "Read demo_elf 128 16 = Some (le_bytes 16 0)" by code_simp+
  have f: "field 0 8 (le_bytes 8 (Suc 0) @ le_bytes 8 (Suc 0)) = Suc 0" "field 8 8 (le_bytes 8 (Suc 0) @ le_bytes 8 (Suc 0)) = Suc 0"
    "field 0 8 (le_bytes 8 29 @ le_bytes 8 9) = 29" "field 8 8 (le_bytes 8 29 @ le_bytes 8 9) = 9" "field 0 8 (le_bytes 16 0) = 0"
    by code_simp+
  have c: "CString demo_elf (Suc 0) = ''libx.so''" by code_simp
  show ?thesis
    by (simp add: ReadDynamic_def find_section_def demo_sections_def e offs r f c dyn_entry_def add64_def verneed_loop.simps Let_def)
qed


end
