(* ===== verification/Spec2Isabelle.thy ===== *)
theory Spec2Isabelle
  imports Daemon Slots Nix_Wire Gocache Broker Rustc_Mode Elf_Fixup
begin

text \<open>
  Verification of the native programs of the package set: the build cache \<open>jig\<close> (\<open>src/pkgs/ji/jig/src\<close>) with its
  daemon \<open>jigd\<close> (\<open>src/pkgs/ji/jigd/src\<close>), and the token broker \<open>jsem\<close> (\<open>src/pkgs/js/jsem/src\<close>).

  \<^bold>\<open>The programs.\<close>  \<open>jig\<close> is called in place of a compiler.  It forms a key from the command line and the source,
  asks the daemon for a manifest of the inputs an earlier run read, checks that they still read the same, and
  either replays the stored outputs or runs the compiler and stores them.  Store hashes are masked in
  everything that is stored or hashed, and resolved to the packages of the running build on the way back.
  Other modes of the same binary do the same for \<open>rustc\<close> (\<open>rustcwrap\<close>), store Go build outputs (\<open>gocacheprog\<close>) and
  whole trees (\<open>cache put-dir\<close>), rewrite installed binaries so that they can be moved (\<open>reloc-fixup\<close>), and talk to the Nix daemon (\<open>nix-store\<close>).  The daemon serves the cache over a socket and limits the number of compilers on the host;
  \<open>jsem\<close> feeds the semaphore of parallel ghc processes from the same limit.

  \<^bold>\<open>The theories,\<close> in the order of their dependencies.
  \<^item> \<open>Prelude\<close>: the C++ string interface on lists (\<open>find\<close>, \<open>substr\<close>, \<open>replace\<close>), theorem collections, shared lemmas.
  \<^item> \<open>Base\<close> (\<open>base.cc\<close>, \<open>keys.h\<close>): splitting, response files, numbers, hashing fields, server keys.
    Shown: fields and keys are unambiguous, the tokenizer reads back GNU quoting, numbers round trip or are
    refused when they need more than 64 bits.
  \<^item> \<open>Paths\<close>, \<open>Files\<close> (\<open>base.cc\<close> and the parts of \<open>std::filesystem\<close> it uses): lexical path operations, reading
    under every schedule of short reads, writing by rename.  Shown: a reader gets the whole content or an
    error, and no state of the file system has a partial file.
  \<^item> \<open>Store\<close>, \<open>Store_Replay\<close> (\<open>store.cc\<close>): masking and resolving.  Shown: masking replaces exactly the hashes,
    swapping the own output hash is inverted, a replayed text names the packages of the running build.
  \<^item> \<open>Manifest\<close> (\<open>manifest.cc\<close>): depfiles, building and validating manifests.  Shown: validation accepts exactly
    the manifests whose inputs are unchanged, a result key determines the inputs, build and validate round trip.
  \<^item> \<open>Cache_Client\<close> (\<open>cache_client.cc\<close>), \<open>Daemon\<close> (\<open>main.go\<close>), \<open>Slots\<close> (\<open>slots.go\<close>): the two ends of the wire and
    the admission of compilers.  Shown: puts of one client are answered to another through both ends, no
    slot leaks, in every interleaving the limit holds.
  \<^item> \<open>World\<close>, \<open>Process\<close> (\<open>process.cc\<close>): the state monad the modes run in (files, environment, output, the
    cache with faults), running children and holding slots.
  \<^item> \<open>Driver\<close> (\<open>driver.cc\<close>): the command line of the compiler.  Shown: no host directory reaches a run path, one
    dynamic linker is named.
  \<^item> \<open>Cc_Mode\<close>, \<open>Cc_Replay\<close> (\<open>cc_mode.cc\<close>): the compiler mode.  Shown: a stored compilation is found and replayed
    byte for byte; only deterministic failures are remembered; faults of the daemon never change a status.
  \<^item> \<open>Dir_Mode\<close> (\<open>dir_mode.cc\<close>): trees in the cache.  Shown: a stored tree is restored with links, permissions and
    contents; a restore that fails leaves no part of it behind.
  \<^item> \<open>Rustc_Mode\<close> (\<open>rustc_mode.cc\<close>): the rustc mode.  Shown: the hashes in file names do not reach the key; stored
    artifacts are restored under the names of the call that asks.
  \<^item> \<open>Binary_Image\<close> (\<open>fixup_mode.h\<close>, \<open>fixup_mode.cc\<close>), \<open>Elf_Fixup\<close> (\<open>elf_fixup.cc\<close>): rewriting ELF files in place.
    Shown: a relative path leads to its target; run path, needed libraries and version table read as
    intended after the rewrite, and every other byte is kept.
  \<^item> \<open>Sha256\<close>, \<open>Nix_Store\<close>, \<open>Nix_Codec\<close>, \<open>Nix_Wire\<close> (\<open>nix_store_mode.cc\<close>): SHA-256 and store paths, derivations as
    ATerm text, the worker protocol.  Shown: the hash equals the standard's, texts are unambiguous and
    canonical, replies and errors of the daemon are read to their end however the stream is cut.
  \<^item> \<open>Base64\<close>, \<open>Gocache\<close> (\<open>gocache_mode.cc\<close>): the coder and Go's line protocol.  Shown: RFC 4648, and what one go
    command stores another one gets.
  \<^item> \<open>Broker\<close> (\<open>jsem\<close>): the broker as a function and as a step relation.  Shown: no over-admission in any
    interleaving with ghc, the function refines the steps, a tick offers exactly one token, and the loop
    ends when the semaphore is gone.

  \<^bold>\<open>Conventions.\<close>  Bytes are characters, a stream or file is a string, and definitions have the names of the
  source.  Results that may fail are options or sums; a step of the kernel that may fail is a parameter: lists
  of chunks a read delivers, lists of lengths a write accepts, plans for writing a file, faults of an exchange
  with the daemon.  BLAKE3, zstd, the JSON library, the compiler and the kernel are parameters, and what the
  programs rely on in them are named hypotheses.  Words of 32 and 64 bits are used where the source computes
  with them (hashing, the coder, lengths on the wire); sizes of strings in memory are natural numbers.

  \<^bold>\<open>Loops.\<close>  Every loop is a total function with a termination proof, by the unread bytes of a stream, the rest of
  a list or the free capacity of a buffer; no fuel is used.  The loop of \<open>RunBroker\<close>, which runs until
  the semaphore disappears, is a function of the looks it takes and says so when they are used up.

  \<^bold>\<open>Not modelled.\<close>  The pack files, identities and the peer check of \<open>jigd\<close> (\<open>store.go\<close>, \<open>identity.go\<close>,
  \<open>peer_linux.go\<close>), for which the daemon has the map and the function they implement; the Mach-O half of
  \<open>reloc-fixup\<close> (\<open>macho_fixup.cc\<close>) and with it the walk over a tree that calls both halves (\<open>FixOne\<close>, \<open>CheckDenied\<close>,
  \<open>RunFixupMode\<close>); the choice of the mode in \<open>main.cc\<close>; the programs \<open>launch\<close> and \<open>dlaudit\<close>, which share no
  code with the cache; \<open>crt-interp\<close>, which is start-up code before relocation; and the one-line wrappers of
  \<open>libgcc-shim\<close> and \<open>tre\<close>.
\<close>

end
